theory Spec2Isabelle
  imports Complex_Main "HOL-Library.Word" "HOL-Library.Signed_Division" "HOL-Library.Log_Nat"
begin

unbundle bit_operations_syntax

chapter \<open>EasyProfiler capture decoder and analysis engine\<close>

section \<open>Byte cursor (encoding/binary and io over the opened file)\<close>

text \<open>
  The reader of \<^verbatim>\<open>parser/reader.go\<close> is an \<^verbatim>\<open>*os.File\<close> that is only ever read
  forwards. It is modelled by the list of bytes that have not been consumed yet. A
  forward \<^verbatim>\<open>Seek\<close> past the end of a file succeeds and every later read reports
  \<^verbatim>\<open>io.EOF\<close>; dropping bytes from the remainder gives the same observations.
\<close>

type_synonym byte = "8 word"

text \<open>
  Every error value the decoder can return. The constructors that carry another error are
  the \<^verbatim>\<open>fmt.Errorf("...: %w", err)\<close> wrappers of the source, with the formatted index
  or value kept as an argument.
\<close>

datatype error =
    EOF
  | ErrUnexpectedEOF
  | FailedToReadHeader error
  | InvalidFileSignature "32 word"
  | UnsupportedVersion "32 word"
  | FailedToReadDescriptors error
  | FailedToReadDescriptor "32 word" error
  | FailedToReadThreads error
  | FailedToReadThreadID error
  | FailedToReadThread "64 word" error
  | FailedToReadContextSwitch "32 word" error
  | FailedToReadBlock "32 word" error
  | FailedToReadEndSignature error
  | InvalidEndSignature "32 word"
  | FailedToReadBookmarks error
  | FailedToReadBookmark "16 word" error
  | InvalidBookmarksEndSignature "32 word"

text \<open>
  A call either returns a value, returns an error, or panics (a run-time fault such as
  \<^verbatim>\<open>slice bounds out of range\<close>, which is not an error value).
\<close>

datatype 'a result = Ok 'a | Err error | Panic

fun rbind :: "'a result \<Rightarrow> ('a \<Rightarrow> 'b result) \<Rightarrow> 'b result" where
  "rbind (Ok x) f = f x"
| "rbind (Err e) f = Err e"
| "rbind Panic f = Panic"

text \<open>
  \<^verbatim>\<open>io.ReadFull(r, buf)\<close> with \<^verbatim>\<open>len(buf) = n\<close>: all \<open>n\<close> bytes, or \<^verbatim>\<open>io.EOF\<close> when
  nothing could be read, or \<^verbatim>\<open>io.ErrUnexpectedEOF\<close> after a partial read. A buffer of
  length zero is filled without touching the source.
\<close>

definition ReadFull :: "nat \<Rightarrow> byte list \<Rightarrow> (byte list \<times> byte list) result" where
  "ReadFull n r =
     (if n \<le> length r then Ok (take n r, drop n r)
      else if r = [] then Err EOF
      else Err ErrUnexpectedEOF)"

text \<open>\<^verbatim>\<open>binary.LittleEndian\<close>: the first byte is the least significant one.\<close>

fun le_word :: "byte list \<Rightarrow> 'a::len word" where
  "le_word [] = 0"
| "le_word (b # bs) = ucast b OR push_bit 8 (le_word bs)"

text \<open>
  \<^verbatim>\<open>binary.Read(r, binary.LittleEndian, &x)\<close> for a fixed-width integer \<open>x\<close>: the width
  of the destination decides how many bytes are consumed.
\<close>

definition binary_Read :: "byte list \<Rightarrow> ('a::len word \<times> byte list) result" where
  "binary_Read r =
     rbind (ReadFull (LENGTH('a) div 8) r) (\<lambda>(bs, r'). Ok (le_word bs, r'))"

text \<open>\<^verbatim>\<open>r.reader.Seek(int64(size), io.SeekCurrent)\<close> with a non-negative offset.\<close>

definition Seek :: "nat \<Rightarrow> byte list \<Rightarrow> byte list" where
  "Seek n r = drop n r"

text \<open>
  The slice expression \<^verbatim>\<open>s[:hi]\<close>. Go panics unless \<open>0 \<le> hi \<le> cap(s)\<close>; at every use
  in this program the slice is freshly made or \<open>hi\<close> has been clamped to its length, so
  the capacity bound is the length.
\<close>

definition slice_to :: "'a list \<Rightarrow> int \<Rightarrow> 'a list result" where
  "slice_to s hi = (if 0 \<le> hi \<and> hi \<le> int (length s) then Ok (take (nat hi) s) else Panic)"

text \<open>\<^verbatim>\<open>string(bytes)\<close>: a Go string is its bytes.\<close>

definition string_of_bytes :: "byte list \<Rightarrow> string" where
  "string_of_bytes bs = map (\<lambda>b. char_of (unat b)) bs"

section \<open>Data model (parser/types.go)\<close>

definition EasyProfilerSignature :: "32 word" where "EasyProfilerSignature = 0x45617379"
definition MinCompatibleVersion :: "32 word" where "MinCompatibleVersion = 0x00010000"
definition Version100 :: "32 word" where "Version100 = 0x01000000"
definition Version130 :: "32 word" where "Version130 = 0x01030000"
definition Version200 :: "32 word" where "Version200 = 0x02000000"
definition Version210 :: "32 word" where "Version210 = 0x02010000"

record FileHeader =
  Signature :: "32 word"
  Version :: "32 word"
  PID :: "64 word"
  CPUFrequency :: "64 word"
  BeginTime :: "64 word"
  EndTime :: "64 word"
  MemorySize :: "64 word"
  DescriptorsMemorySize :: "64 word"
  BlocksCount :: "32 word"
  DescriptorsCount :: "32 word"
  ThreadsCount :: "32 word"
  BookmarksCount :: "16 word"
  Padding :: "16 word"

text \<open>The zero value of the struct, as \<^verbatim>\<open>NewProfileData\<close> leaves it.\<close>

definition zero_FileHeader :: FileHeader where
  "zero_FileHeader = \<lparr>Signature = 0, Version = 0, PID = 0, CPUFrequency = 0, BeginTime = 0,
     EndTime = 0, MemorySize = 0, DescriptorsMemorySize = 0, BlocksCount = 0,
     DescriptorsCount = 0, ThreadsCount = 0, BookmarksCount = 0, Padding = 0\<rparr>"

record BlockDescriptor =
  desc_ID :: "32 word"
  desc_Line :: "32 word"
  desc_Color :: "32 word"
  desc_Type :: "8 word"
  desc_Status :: "8 word"
  desc_Name :: string
  desc_File :: string

datatype Block =
  Block (Begin: "64 word") (End: "64 word") (ID: "32 word") (Name: string)
        (Children: "Block list")

text \<open>
  \<^verbatim>\<open>time.Duration\<close> is an \<^verbatim>\<open>int64\<close>: a 64-bit word read with \<^const>\<open>sint\<close>. The
  subtraction is done on \<^verbatim>\<open>uint64\<close> and wraps; the conversion keeps the bits.
\<close>

type_synonym Duration = "64 word"

definition Duration :: "Block \<Rightarrow> Duration" where
  "Duration b = End b - Begin b"

record ContextSwitch =
  cs_Begin :: "64 word"
  cs_End :: "64 word"
  cs_ThreadID :: "64 word"
  cs_Name :: string

record ThreadData =
  ThreadID :: "64 word"
  ThreadName :: string
  ContextSwitches :: "ContextSwitch list"
  Blocks :: "Block list"

record Bookmark =
  bm_Position :: "64 word"
  bm_Color :: "32 word"
  bm_Text :: string

text \<open>
  The two Go maps: descriptors are only looked up, so they are a partial function; the
  threads are also ranged over, so they are an association list with one entry per key,
  whose order stands for the (unspecified) iteration order of the Go map. Go's \<^verbatim>\<open>int\<close>
  is modelled by \<^typ>\<open>int\<close>: the values held in it here are slice lengths and counts of
  slice elements.
\<close>

record ProfileData =
  Header :: FileHeader
  Descriptors :: "32 word \<rightharpoonup> BlockDescriptor"
  Threads :: "(64 word \<times> ThreadData) list"
  Bookmarks :: "Bookmark list"
  TotalBlocksCount :: int
  MemoryUsedBytes :: "64 word"

definition NewProfileData :: ProfileData where
  "NewProfileData = \<lparr>Header = zero_FileHeader, Descriptors = Map.empty, Threads = [],
     Bookmarks = [], TotalBlocksCount = 0, MemoryUsedBytes = 0\<rparr>"

text \<open>\<^verbatim>\<open>m[k] = v\<close> on a Go map: the last write for a key wins.\<close>

fun map_assign :: "('k \<times> 'v) list \<Rightarrow> 'k \<Rightarrow> 'v \<Rightarrow> ('k \<times> 'v) list" where
  "map_assign [] k v = [(k, v)]"
| "map_assign ((k', v') # m) k v = (if k' = k then (k, v) # m else (k', v') # map_assign m k v)"

definition GetTotalDuration :: "ProfileData \<Rightarrow> Duration" where
  "GetTotalDuration p = EndTime (Header p) - BeginTime (Header p)"

fun countBlocks :: "Block list \<Rightarrow> int" where
  "countBlocks [] = 0"
| "countBlocks (Block b e i n cs # blocks) = 1 + countBlocks cs + countBlocks blocks"

definition GetBlocksCount :: "ProfileData \<Rightarrow> int" where
  "GetBlocksCount p = (\<Sum>(tid, thread) \<leftarrow> Threads p. countBlocks (Blocks thread))"

section \<open>Read options\<close>

text \<open>The \<^verbatim>\<open>ProgressCallback\<close> field is a function value that nothing calls.\<close>

record ReadOptions =
  MaxBlockDepth :: int
  SampleBlocks :: int
  SkipContextSwitches :: bool
  SkipBookmarks :: bool
  MaxThreads :: int

definition DefaultReadOptions :: ReadOptions where
  "DefaultReadOptions = \<lparr>MaxBlockDepth = 0, SampleBlocks = 0, SkipContextSwitches = False,
     SkipBookmarks = False, MaxThreads = 0\<rparr>"

definition FastReadOptions :: ReadOptions where
  "FastReadOptions = \<lparr>MaxBlockDepth = 5, SampleBlocks = 10, SkipContextSwitches = True,
     SkipBookmarks = True, MaxThreads = 0\<rparr>"

section \<open>Capture decoder (parser/reader.go)\<close>

record Reader =
  reader :: "byte list"
  data :: ProfileData
  options :: ReadOptions

subsection \<open>Loops\<close>

text \<open>
  The counted loops of the decoder all have the shape
  \<^verbatim>\<open>for i := uintN(0); i < n; i++ { ...; if err != nil { return ... } }\<close>
  over an unsigned counter. \<open>for_loop i n body s\<close> runs the body from counter value
  \<open>i\<close> on the state \<open>s\<close>; the body's error or panic ends the loop.
\<close>

lemma for_loop_measure:
  fixes i n :: "'w::len word"
  assumes "i < n"
  shows "unat n - unat (i + 1) < unat n - unat i"
proof -
  from assms have lt: "unat i < unat n" by (simp add: word_less_nat_alt)
  have "unat n < 2 ^ LENGTH('w)" by (rule unsigned_less)
  with lt have "unat i + 1 < 2 ^ LENGTH('w)" by linarith
  then have "unat (i + 1) = unat i + 1"
    by (simp add: unat_word_ariths)
  with lt show ?thesis by simp
qed

function for_loop ::
  "'w::len word \<Rightarrow> 'w word \<Rightarrow> ('w word \<Rightarrow> 's \<Rightarrow> 's result) \<Rightarrow> 's \<Rightarrow> 's result" where
  "for_loop i n body s =
     (if i < n then
        (case body i s of
           Ok s' \<Rightarrow> for_loop (i + 1) n body s'
         | Err e \<Rightarrow> Err e
         | Panic \<Rightarrow> Panic)
      else Ok s)"
  by pat_completeness auto
termination
  by (relation "measure (\<lambda>(i, n, body, s). unat n - unat i)") (auto intro: for_loop_measure)

declare for_loop.simps [simp del]

text \<open>Wrapping the error of a call, as \<^verbatim>\<open>fmt.Errorf("...: %w", err)\<close> does.\<close>

fun wrap_err :: "(error \<Rightarrow> error) \<Rightarrow> 'a result \<Rightarrow> 'a result" where
  "wrap_err w (Ok x) = Ok x"
| "wrap_err w (Err e) = Err (w e)"
| "wrap_err w Panic = Panic"

subsection \<open>Header\<close>

text \<open>
  \<^verbatim>\<open>readHeader\<close> fills \<^verbatim>\<open>r.data.Header\<close> field by field. An error aborts
  \<^verbatim>\<open>Parse\<close>, which then returns no model, so the state after a failed read is not part
  of any result and only the error is kept.
\<close>

definition readHeader :: "Reader \<Rightarrow> Reader result" where
  "readHeader r =
     rbind (binary_Read (reader r)) (\<lambda>(sig, r1).
     rbind (binary_Read r1) (\<lambda>(ver, r2).
     rbind (if ver < Version130
            then rbind (binary_Read r2)
                   (\<lambda>(pid32 :: 32 word, r3). Ok (ucast pid32 :: 64 word, r3))
            else binary_Read r2) (\<lambda>(pid, r3).
     rbind (binary_Read r3) (\<lambda>(freq, r4).
     rbind (binary_Read r4) (\<lambda>(begin_time, r5).
     rbind (binary_Read r5) (\<lambda>(end_time, r6).
     let h = (Header (data r))\<lparr>Signature := sig, Version := ver, PID := pid,
               CPUFrequency := freq, BeginTime := begin_time, EndTime := end_time\<rparr>
     in
     if ver < Version200 then
       rbind (binary_Read r6) (\<lambda>(blocks, r7).
       rbind (binary_Read r7) (\<lambda>(mem, r8).
       rbind (binary_Read r8) (\<lambda>(descs, r9).
       rbind (binary_Read r9) (\<lambda>(descmem, r10).
       Ok (r\<lparr>reader := r10,
              data := (data r)\<lparr>Header := h\<lparr>BlocksCount := blocks, MemorySize := mem,
                DescriptorsCount := descs, DescriptorsMemorySize := descmem\<rparr>\<rparr>\<rparr>)))))
     else
       rbind (binary_Read r6) (\<lambda>(mem, r7).
       rbind (binary_Read r7) (\<lambda>(descmem, r8).
       rbind (binary_Read r8) (\<lambda>(blocks, r9).
       rbind (binary_Read r9) (\<lambda>(descs, r10).
       let h' = h\<lparr>MemorySize := mem, DescriptorsMemorySize := descmem,
                   BlocksCount := blocks, DescriptorsCount := descs\<rparr>
       in
       if Version210 \<le> ver then
         rbind (binary_Read r10) (\<lambda>(threads, r11).
         rbind (binary_Read r11) (\<lambda>(bookmarks, r12).
         rbind (binary_Read r12) (\<lambda>(padding, r13).
         Ok (r\<lparr>reader := r13,
                data := (data r)\<lparr>Header := h'\<lparr>ThreadsCount := threads,
                  BookmarksCount := bookmarks, Padding := padding\<rparr>\<rparr>\<rparr>))))
       else Ok (r\<lparr>reader := r10, data := (data r)\<lparr>Header := h'\<rparr>\<rparr>)))))))))))"

subsection \<open>Descriptor table\<close>

text \<open>
  \<^verbatim>\<open>size\<close> and \<^verbatim>\<open>nameLength\<close> are \<^verbatim>\<open>uint16\<close>, so the remaining size is computed
  modulo \<open>2 ^ 16\<close>. The two slice expressions drop the terminating zero byte.
\<close>

definition readDescriptor :: "byte list \<Rightarrow> (BlockDescriptor \<times> byte list) result" where
  "readDescriptor r0 =
     rbind (binary_Read r0) (\<lambda>(size :: 16 word, r1).
     rbind (binary_Read r1) (\<lambda>(id, r2).
     rbind (binary_Read r2) (\<lambda>(line, r3).
     rbind (binary_Read r3) (\<lambda>(color, r4).
     rbind (binary_Read r4) (\<lambda>(type, r5).
     rbind (binary_Read r5) (\<lambda>(status, r6).
     rbind (binary_Read r6) (\<lambda>(nameLength :: 16 word, r7).
     rbind (ReadFull (unat nameLength) r7) (\<lambda>(nameBytes, r8).
     rbind (slice_to nameBytes (int (length nameBytes) - 1)) (\<lambda>name.
     let descriptor = \<lparr>desc_ID = id, desc_Line = line, desc_Color = color, desc_Type = type,
                         desc_Status = status, desc_Name = string_of_bytes name,
                         desc_File = []\<rparr>;
         remainingSize = size - (4 + 4 + 4 + 1 + 1 + 2 + nameLength)
     in
     if remainingSize > 0 then
       rbind (ReadFull (unat remainingSize) r8) (\<lambda>(fileBytes, r9).
       rbind (slice_to fileBytes (int (length fileBytes) - 1)) (\<lambda>file.
       Ok (descriptor\<lparr>desc_File := string_of_bytes file\<rparr>, r9)))
     else Ok (descriptor, r8))))))))))"

definition readDescriptors :: "Reader \<Rightarrow> Reader result" where
  "readDescriptors r =
     for_loop 0 (DescriptorsCount (Header (data r)))
       (\<lambda>i r. rbind (wrap_err (FailedToReadDescriptor i) (readDescriptor (reader r)))
          (\<lambda>(descriptor, rest).
             Ok (r\<lparr>reader := rest,
                    data := (data r)\<lparr>Descriptors :=
                      (Descriptors (data r))(desc_ID descriptor \<mapsto> descriptor)\<rparr>\<rparr>)))
       r"

subsection \<open>Thread list\<close>

definition readContextSwitch :: "byte list \<Rightarrow> (ContextSwitch \<times> byte list) result" where
  "readContextSwitch r0 =
     rbind (binary_Read r0) (\<lambda>(size :: 16 word, r1).
     rbind (binary_Read r1) (\<lambda>(tid, r2).
     rbind (binary_Read r2) (\<lambda>(begin_time, r3).
     rbind (binary_Read r3) (\<lambda>(end_time, r4).
     let cs = \<lparr>cs_Begin = begin_time, cs_End = end_time, cs_ThreadID = tid, cs_Name = []\<rparr>;
         remainingSize = size - 24
     in
     if remainingSize > 0 then
       rbind (ReadFull (unat remainingSize) r4) (\<lambda>(nameBytes, r5).
       rbind (slice_to nameBytes (int (length nameBytes) - 1)) (\<lambda>name.
       Ok (cs\<lparr>cs_Name := string_of_bytes name\<rparr>, r5)))
     else Ok (cs, r4)))))"

text \<open>
  \<^verbatim>\<open>readBlock\<close> reads one record and never reads children: the block it returns has the
  empty \<^verbatim>\<open>Children\<close> slice it was created with.
\<close>

definition readBlock :: "byte list \<Rightarrow> (Block \<times> byte list) result" where
  "readBlock r0 =
     rbind (binary_Read r0) (\<lambda>(size :: 16 word, r1).
     rbind (binary_Read r1) (\<lambda>(begin_time, r2).
     rbind (binary_Read r2) (\<lambda>(end_time, r3).
     rbind (binary_Read r3) (\<lambda>(id, r4).
     let remainingSize = size - 20 in
     if remainingSize > 0 then
       rbind (ReadFull (unat remainingSize) r4) (\<lambda>(nameBytes, r5).
       if length nameBytes > 0 \<and> last nameBytes = 0 then
         rbind (slice_to nameBytes (int (length nameBytes) - 1)) (\<lambda>name.
         Ok (Block begin_time end_time id (string_of_bytes name) [], r5))
       else Ok (Block begin_time end_time id (string_of_bytes nameBytes) [], r5))
     else Ok (Block begin_time end_time id [] [], r4)))))"

text \<open>
  The state of the loops of \<^verbatim>\<open>readThread\<close> is the thread under construction and the
  cursor. Of the options only \<^verbatim>\<open>SkipContextSwitches\<close> is read.
\<close>

definition readThread ::
  "ReadOptions \<Rightarrow> 64 word \<Rightarrow> byte list \<Rightarrow> (ThreadData \<times> byte list) result" where
  "readThread opts threadID r0 =
     (let thread = \<lparr>ThreadID = threadID, ThreadName = [], ContextSwitches = [], Blocks = []\<rparr>
      in
      rbind (binary_Read r0) (\<lambda>(nameSize :: 16 word, r1).
      rbind (if nameSize > 0
             then rbind (ReadFull (unat nameSize) r1) (\<lambda>(nameBytes, r2).
                    Ok (thread\<lparr>ThreadName := string_of_bytes nameBytes\<rparr>, r2))
             else Ok (thread, r1)) (\<lambda>(thread, r2).
      rbind (binary_Read r2) (\<lambda>(csCount :: 32 word, r3).
      rbind (if SkipContextSwitches opts
             then for_loop 0 csCount
                    (\<lambda>i (thread, r).
                       rbind (binary_Read r) (\<lambda>(size :: 16 word, r').
                       Ok (thread, Seek (unat size) r')))
                    (thread, r3)
             else for_loop 0 csCount
                    (\<lambda>i (thread, r).
                       rbind (wrap_err (FailedToReadContextSwitch i) (readContextSwitch r))
                         (\<lambda>(cs, r').
                       Ok (thread\<lparr>ContextSwitches := ContextSwitches thread @ [cs]\<rparr>, r')))
                    (thread, r3)) (\<lambda>(thread, r4).
      rbind (binary_Read r4) (\<lambda>(blocksCount :: 32 word, r5).
      for_loop 0 blocksCount
        (\<lambda>i (thread, r).
           rbind (wrap_err (FailedToReadBlock i) (readBlock r)) (\<lambda>(block, r').
           Ok (thread\<lparr>Blocks := Blocks thread @ [block]\<rparr>, r')))
        (thread, r5)))))))"

text \<open>
  One pass through the body of the loop of \<^verbatim>\<open>readThreads\<close> goes on to the next
  pass, breaks out of the loop, or returns from the function, with \<^verbatim>\<open>nil\<close> or with an
  error. (No call made here can panic; the last constructor only carries the third
  outcome of the result type.)
\<close>

datatype step = Continue Reader | Break | ReturnNil Reader | ReturnErr error | StepPanic

definition storeThread :: "Reader \<Rightarrow> 64 word \<Rightarrow> byte list \<Rightarrow> step" where
  "storeThread r threadID rest =
     (case readThread (options r) threadID rest of
        Err e \<Rightarrow> ReturnErr (FailedToReadThread threadID e)
      | Panic \<Rightarrow> StepPanic
      | Ok (thread, rest') \<Rightarrow>
          Continue (r\<lparr>reader := rest',
                      data := (data r)\<lparr>Threads :=
                        map_assign (Threads (data r)) threadID thread\<rparr>\<rparr>))"

definition readThreads_body :: "32 word \<Rightarrow> Reader \<Rightarrow> step" where
  "readThreads_body expectedThreads r =
     (if Version (Header (data r)) < Version130 then
        (case binary_Read (reader r) of
           Err e \<Rightarrow> if e = EOF then Break else ReturnErr (FailedToReadThreadID e)
         | Panic \<Rightarrow> StepPanic
         | Ok (threadID32 :: 32 word, rest) \<Rightarrow>
             if threadID32 = EasyProfilerSignature \<and> expectedThreads = 0xFFFFFFFF
             then ReturnNil (r\<lparr>reader := rest\<rparr>)
             else storeThread r (ucast threadID32) rest)
      else
        (case binary_Read (reader r) of
           Err e \<Rightarrow> if e = EOF then Break else ReturnErr (FailedToReadThreadID e)
         | Panic \<Rightarrow> StepPanic
         | Ok (threadID :: 64 word, rest) \<Rightarrow>
             if (ucast (threadID AND 0xFFFFFFFF) :: 32 word) = EasyProfilerSignature
                \<and> expectedThreads = 0xFFFFFFFF
             then ReturnNil (r\<lparr>reader := rest\<rparr>)
             else storeThread r threadID rest))"

text \<open>
  The loop \<^verbatim>\<open>for threadsRead < expectedThreads\<close> either falls through to the code
  after it (its condition fails, or the body breaks), or the function returns from
  inside the body.
\<close>

datatype loop_end = Exited "32 word" Reader | Returned "Reader result"

function readThreads_loop :: "32 word \<Rightarrow> 32 word \<Rightarrow> Reader \<Rightarrow> loop_end" where
  "readThreads_loop threadsRead expectedThreads r =
     (if threadsRead < expectedThreads then
        (case readThreads_body expectedThreads r of
           Continue r' \<Rightarrow> readThreads_loop (threadsRead + 1) expectedThreads r'
         | Break \<Rightarrow> Exited threadsRead r
         | ReturnNil r' \<Rightarrow> Returned (Ok r')
         | ReturnErr e \<Rightarrow> Returned (Err e)
         | StepPanic \<Rightarrow> Returned Panic)
      else Exited threadsRead r)"
  by pat_completeness auto
termination
  by (relation "measure (\<lambda>(i, n, r). unat n - unat i)") (auto intro: for_loop_measure)

declare readThreads_loop.simps [simp del]

definition readThreads :: "Reader \<Rightarrow> Reader result" where
  "readThreads r =
     (let expectedThreads =
            (if Version (Header (data r)) < Version210 then 0xFFFFFFFF
             else ThreadsCount (Header (data r)))
      in
      case readThreads_loop 0 expectedThreads r of
        Returned res \<Rightarrow> res
      | Exited threadsRead r' \<Rightarrow>
          (case binary_Read (reader r') of
             Err e \<Rightarrow>
               if e = EOF \<and> threadsRead = expectedThreads then Ok r'
               else Err (FailedToReadEndSignature e)
           | Panic \<Rightarrow> Panic
           | Ok (signature :: 32 word, rest) \<Rightarrow>
               if signature \<noteq> EasyProfilerSignature then Err (InvalidEndSignature signature)
               else Ok (r'\<lparr>reader := rest\<rparr>)))"

subsection \<open>Bookmarks\<close>

definition readBookmark :: "byte list \<Rightarrow> (Bookmark \<times> byte list) result" where
  "readBookmark r0 =
     rbind (binary_Read r0) (\<lambda>(size :: 16 word, r1).
     rbind (binary_Read r1) (\<lambda>(position, r2).
     rbind (binary_Read r2) (\<lambda>(color, r3).
     let bookmark = \<lparr>bm_Position = position, bm_Color = color, bm_Text = []\<rparr>;
         remainingSize = size - 12
     in
     if remainingSize > 0 then
       rbind (ReadFull (unat remainingSize) r3) (\<lambda>(textBytes, r4).
       rbind (slice_to textBytes (int (length textBytes) - 1)) (\<lambda>text.
       Ok (bookmark\<lparr>bm_Text := string_of_bytes text\<rparr>, r4)))
     else Ok (bookmark, r3))))"

definition readBookmarks :: "Reader \<Rightarrow> Reader result" where
  "readBookmarks r =
     rbind (for_loop 0 (BookmarksCount (Header (data r)))
              (\<lambda>i r. rbind (wrap_err (FailedToReadBookmark i) (readBookmark (reader r)))
                 (\<lambda>(bookmark, rest).
                    Ok (r\<lparr>reader := rest,
                           data := (data r)\<lparr>Bookmarks := Bookmarks (data r) @ [bookmark]\<rparr>\<rparr>)))
              r) (\<lambda>r'.
     rbind (binary_Read (reader r')) (\<lambda>(signature :: 32 word, rest).
     if signature \<noteq> EasyProfilerSignature then Err (InvalidBookmarksEndSignature signature)
     else Ok (r'\<lparr>reader := rest\<rparr>)))"

subsection \<open>The whole file\<close>

text \<open>
  \<^verbatim>\<open>NewReaderWithOptions\<close> on a file that could be opened; \<open>file\<close> is its contents.
\<close>

definition NewReaderWithOptions :: "byte list \<Rightarrow> ReadOptions \<Rightarrow> Reader" where
  "NewReaderWithOptions file opts = \<lparr>reader = file, data = NewProfileData, options = opts\<rparr>"

definition NewReader :: "byte list \<Rightarrow> Reader" where
  "NewReader file = NewReaderWithOptions file DefaultReadOptions"

definition Parse :: "Reader \<Rightarrow> ProfileData result" where
  "Parse r0 =
     rbind (wrap_err FailedToReadHeader (readHeader r0)) (\<lambda>r1.
     if Signature (Header (data r1)) \<noteq> EasyProfilerSignature
     then Err (InvalidFileSignature (Signature (Header (data r1))))
     else if Version (Header (data r1)) < MinCompatibleVersion
     then Err (UnsupportedVersion (Version (Header (data r1))))
     else
     rbind (wrap_err FailedToReadDescriptors (readDescriptors r1)) (\<lambda>r2.
     rbind (wrap_err FailedToReadThreads (readThreads r2)) (\<lambda>r3.
     rbind (if \<not> SkipBookmarks (options r3) \<and> Version210 \<le> Version (Header (data r3))
               \<and> BookmarksCount (Header (data r3)) > 0
            then wrap_err FailedToReadBookmarks (readBookmarks r3)
            else Ok r3) (\<lambda>r4.
     Ok ((data r4)\<lparr>TotalBlocksCount := GetBlocksCount (data r4),
                    MemoryUsedBytes := MemorySize (Header (data r4))\<rparr>)))))"

section \<open>Analysis engine (analyzer/analyzer.go)\<close>

record BlockInfo =
  bi_Name :: string
  bi_File :: string
  bi_Line :: "32 word"
  bi_Duration :: Duration
  bi_CallCount :: int
  bi_ThreadID :: "64 word"
  bi_ThreadName :: string
  bi_AvgDuration :: Duration

text \<open>
  Division of two \<^verbatim>\<open>int64\<close> values truncates towards zero and wraps at the one
  overflowing quotient. Every division of the analyzer is guarded by a test that the
  divisor is positive.
\<close>

definition int64_div :: "64 word \<Rightarrow> 64 word \<Rightarrow> 64 word" where
  "int64_div a b = word_of_int (sint a sdiv sint b)"

text \<open>
  \<^verbatim>\<open>sort.Slice(xs, less)\<close> is library code that leaves \<open>xs\<close> ordered by the comparison and
  promises nothing about the order of elements that compare equal. It is modelled by
  insertion sort, which is what the library runs on a slice of at most twelve elements.
\<close>

fun sort_insert :: "('a \<Rightarrow> 'a \<Rightarrow> bool) \<Rightarrow> 'a \<Rightarrow> 'a list \<Rightarrow> 'a list" where
  "sort_insert lt x [] = [x]"
| "sort_insert lt x (y # ys) =
     (if lt x y then x # y # ys else y # sort_insert lt x ys)"

definition sort_Slice :: "('a \<Rightarrow> 'a \<Rightarrow> bool) \<Rightarrow> 'a list \<Rightarrow> 'a list" where
  "sort_Slice lt xs = foldl (\<lambda>acc x. sort_insert lt x acc) [] xs"

text \<open>The name, file and line shown for a block, from its descriptor when it has one.\<close>

definition resolve_name :: "ProfileData \<Rightarrow> Block \<Rightarrow> string" where
  "resolve_name p block =
     (case Descriptors p (ID block) of
        Some descriptor \<Rightarrow> if Name block = [] then desc_Name descriptor else Name block
      | None \<Rightarrow> Name block)"

definition new_BlockInfo :: "ProfileData \<Rightarrow> Block \<Rightarrow> 64 word \<Rightarrow> string \<Rightarrow> BlockInfo" where
  "new_BlockInfo p block threadID threadName =
     \<lparr>bi_Name = resolve_name p block,
      bi_File = (case Descriptors p (ID block) of Some d \<Rightarrow> desc_File d | None \<Rightarrow> []),
      bi_Line = (case Descriptors p (ID block) of Some d \<Rightarrow> desc_Line d | None \<Rightarrow> 0),
      bi_Duration = Duration block,
      bi_CallCount = 1,
      bi_ThreadID = threadID,
      bi_ThreadName = threadName,
      bi_AvgDuration = 0\<rparr>"

fun analyzeBlocksRecursive ::
  "ProfileData \<Rightarrow> Block list \<Rightarrow> 64 word \<Rightarrow> string \<Rightarrow> BlockInfo list" where
  "analyzeBlocksRecursive p [] threadID threadName = []"
| "analyzeBlocksRecursive p (Block b e i n cs # blocks) threadID threadName =
     new_BlockInfo p (Block b e i n cs) threadID threadName
       # analyzeBlocksRecursive p cs threadID threadName
       @ analyzeBlocksRecursive p blocks threadID threadName"

definition GetSlowestBlocks :: "ProfileData \<Rightarrow> int \<Rightarrow> BlockInfo list result" where
  "GetSlowestBlocks p limit =
     (let allBlocks = concat (map (\<lambda>(threadID, thread).
                        analyzeBlocksRecursive p (Blocks thread) threadID (ThreadName thread))
                        (Threads p));
          allBlocks = sort_Slice (\<lambda>x y. sint (bi_Duration x) > sint (bi_Duration y)) allBlocks;
          limit = (if limit > int (length allBlocks) then int (length allBlocks) else limit)
      in slice_to allBlocks limit)"

subsection \<open>Hotspots\<close>

text \<open>\<^verbatim>\<open>%d\<close> of \<^verbatim>\<open>fmt.Sprintf\<close>: the decimal digits of a signed integer.\<close>

function dec_nat :: "nat \<Rightarrow> string" where
  "dec_nat n = (if n < 10 then [char_of (48 + n)]
                else dec_nat (n div 10) @ [char_of (48 + n mod 10)])"
  by pat_completeness auto
termination
  by (relation "measure id") auto

declare dec_nat.simps [simp del]

definition Sprintf_d :: "int \<Rightarrow> string" where
  "Sprintf_d i = (if i < 0 then CHR ''-'' # dec_nat (nat (- i)) else dec_nat (nat i))"

definition bucket_key :: "ProfileData \<Rightarrow> Block \<Rightarrow> string" where
  "bucket_key p block =
     (case Descriptors p (ID block) of
        Some descriptor \<Rightarrow>
          resolve_name p block @ '':'' @ desc_File descriptor @ '':''
            @ Sprintf_d (sint (desc_Line descriptor))
      | None \<Rightarrow> resolve_name p block)"

text \<open>
  \<^verbatim>\<open>blockMap\<close> is a Go map from keys to pointers; each bucket is reached only through
  the map, so updating the bucket in place is replacing the map's entry.
\<close>

fun aggregateBlocks ::
  "ProfileData \<Rightarrow> Block list \<Rightarrow> 64 word \<Rightarrow> string \<Rightarrow> (string \<times> BlockInfo) list
     \<Rightarrow> (string \<times> BlockInfo) list" where
  "aggregateBlocks p [] threadID threadName blockMap = blockMap"
| "aggregateBlocks p (Block b e i n cs # blocks) threadID threadName blockMap =
     (let block = Block b e i n cs;
          key = bucket_key p block;
          blockMap' =
            (case map_of blockMap key of
               Some existing \<Rightarrow>
                 map_assign blockMap key
                   (existing\<lparr>bi_Duration := bi_Duration existing + Duration block,
                             bi_CallCount := bi_CallCount existing + 1\<rparr>)
             | None \<Rightarrow> map_assign blockMap key (new_BlockInfo p block threadID threadName))
      in aggregateBlocks p blocks threadID threadName
           (aggregateBlocks p cs threadID threadName blockMap'))"

text \<open>
  Ranging over \<^verbatim>\<open>blockMap\<close> visits the buckets in an order Go leaves unspecified; the
  model visits them in the order in which their keys were first inserted.
\<close>

definition GetHotspots :: "ProfileData \<Rightarrow> int \<Rightarrow> BlockInfo list result" where
  "GetHotspots p limit =
     (let blockMap = foldl (\<lambda>m (threadID, thread).
                        aggregateBlocks p (Blocks thread) threadID (ThreadName thread) m)
                        [] (Threads p);
          hotspots = map (\<lambda>(key, info).
                        if bi_CallCount info > 0
                        then info\<lparr>bi_AvgDuration :=
                               int64_div (bi_Duration info) (word_of_int (bi_CallCount info))\<rparr>
                        else info) blockMap;
          hotspots = sort_Slice (\<lambda>x y. sint (bi_Duration x) > sint (bi_Duration y)) hotspots;
          limit = (if limit > int (length hotspots) then int (length hotspots) else limit)
      in slice_to hotspots limit)"

subsection \<open>float64 arithmetic\<close>

text \<open>
  The analyzer converts durations to \<^verbatim>\<open>float64\<close> and divides and multiplies them
  there. A finite \<^verbatim>\<open>float64\<close> is modelled by the rational number it denotes, and
  every operation by the exact result rounded to the nearest number with a 53-bit
  significand, ties going to the even significand (IEEE 754 binary64, round to nearest
  even). Exponent range, infinities and NaN are left out: the operands here come from
  64-bit integers, and every divisor is tested to be positive before the division.

  \<open>f64_exponent x\<close> is the binary exponent of a positive \<open>x\<close>, the \<open>e\<close> with
  \<open>2 ^ e \<le> x < 2 ^ (e + 1)\<close>, found from the bit lengths of numerator and
  denominator.
\<close>

definition round_half_even :: "rat \<Rightarrow> int" where
  "round_half_even m =
     (let f = \<lfloor>m\<rfloor>; d = m - of_int f
      in if d < 1 / 2 then f else if 1 / 2 < d then f + 1 else if even f then f else f + 1)"

definition f64_exponent :: "rat \<Rightarrow> int" where
  "f64_exponent x =
     (let (n, d) = quotient_of x; e0 = bitlen n - bitlen d
      in if 2 powi e0 \<le> x then e0 else e0 - 1)"

definition f64_round :: "rat \<Rightarrow> rat" where
  "f64_round x =
     (if x = 0 then 0
      else let u = 2 powi (f64_exponent \<bar>x\<bar> - 52)
           in sgn x * of_int (round_half_even (\<bar>x\<bar> / u)) * u)"

text \<open>The conversion \<^verbatim>\<open>float64(d)\<close> of a duration, and the two operations used.\<close>

definition float64 :: "Duration \<Rightarrow> rat" where
  "float64 d = f64_round (of_int (sint d))"

definition f64_div :: "rat \<Rightarrow> rat \<Rightarrow> rat" where
  "f64_div x y = f64_round (x / y)"

definition f64_mul :: "rat \<Rightarrow> rat \<Rightarrow> rat" where
  "f64_mul x y = f64_round (x * y)"

subsection \<open>Per-thread statistics\<close>

record ThreadStats =
  ts_ThreadID :: "64 word"
  ts_ThreadName :: string
  ts_TotalDuration :: Duration
  ts_BlockCount :: int
  ts_ContextSwitches :: int
  ts_AvgBlockDuration :: Duration
  ts_PercentOfTotal :: rat

text \<open>Only the top-level blocks of a thread are summed, in 64-bit arithmetic.\<close>

definition calculateThreadDuration :: "Block list \<Rightarrow> Duration" where
  "calculateThreadDuration blocks = foldl (\<lambda>total block. total + Duration block) 0 blocks"

text \<open>
  The analyzer's own \<^verbatim>\<open>countBlocks\<close> method is the same function as the one of
  \<^verbatim>\<open>parser/types.go\<close>.
\<close>

definition GetThreadStatistics :: "ProfileData \<Rightarrow> ThreadStats list" where
  "GetThreadStatistics p =
     (let totalDuration = GetTotalDuration p;
          stats = map (\<lambda>(threadID, thread).
            let threadDuration = calculateThreadDuration (Blocks thread);
                blockCount = countBlocks (Blocks thread);
                avgBlockDuration =
                  (if blockCount > 0 then int64_div threadDuration (word_of_int blockCount)
                   else 0);
                percentOfTotal =
                  (if sint totalDuration > 0
                   then f64_mul (f64_div (float64 threadDuration) (float64 totalDuration)) 100
                   else 0)
            in \<lparr>ts_ThreadID = threadID, ts_ThreadName = ThreadName thread,
                 ts_TotalDuration = threadDuration, ts_BlockCount = blockCount,
                 ts_ContextSwitches = int (length (ContextSwitches thread)),
                 ts_AvgBlockDuration = avgBlockDuration,
                 ts_PercentOfTotal = percentOfTotal\<rparr>) (Threads p)
      in sort_Slice (\<lambda>x y. sint (ts_TotalDuration x) > sint (ts_TotalDuration y)) stats)"

subsection \<open>Thread imbalance\<close>

text \<open>
  The description of an issue is the result of \<^verbatim>\<open>fmt.Sprintf\<close>; it is kept as the
  arguments of that call (maximum, minimum and their ratio), not rendered.
\<close>

datatype description = ThreadImbalanceText Duration Duration rat

record PerformanceIssue =
  pi_Type :: string
  pi_Severity :: string
  pi_Description :: description
  pi_Location :: string
  pi_Duration :: Duration
  pi_ThreadID :: "64 word"
  pi_ThreadName :: string

text \<open>
  The statistics are sorted by decreasing total, so the first entry holds the maximum
  and the last one the minimum. The test \<^verbatim>\<open>minDuration > 0\<close> comes first and guards
  the division.
\<close>

definition detectThreadImbalance :: "ProfileData \<Rightarrow> PerformanceIssue list" where
  "detectThreadImbalance p =
     (let stats = GetThreadStatistics p in
      if length stats < 2 then []
      else
        let maxDuration = ts_TotalDuration (stats ! 0);
            minDuration = ts_TotalDuration (stats ! (length stats - 1))
        in
        if sint minDuration > 0
           \<and> f64_div (float64 maxDuration) (float64 minDuration) > 2
        then [\<lparr>pi_Type = ''Thread Imbalance'', pi_Severity = ''medium'',
               pi_Description = ThreadImbalanceText maxDuration minDuration
                 (f64_div (float64 maxDuration) (float64 minDuration)),
               pi_Location = ''across all threads'',
               pi_Duration = maxDuration - minDuration,
               pi_ThreadID = 0, pi_ThreadName = []\<rparr>]
        else [])"

section \<open>Constructing captures\<close>

text \<open>
  The byte layouts of the format description, used to build the inputs of the
  properties below. \<open>le_bytes n w\<close> is the little-endian encoding of \<open>w\<close> in \<open>n\<close> bytes.
\<close>

fun le_bytes :: "nat \<Rightarrow> 'a::len word \<Rightarrow> byte list" where
  "le_bytes 0 w = []"
| "le_bytes (Suc n) w = ucast w # le_bytes n (drop_bit 8 w)"

text \<open>
  The four header layouts as the specification words them: the oldest family has a
  32-bit process id; the mid family widens it to 64 bits; the newer family moves the two
  memory sizes before the two counts; the newest family appends thread count, bookmark
  count and padding.
\<close>

datatype family = Oldest | Mid | Newer | Newest

definition family_of :: "32 word \<Rightarrow> family" where
  "family_of v = (if v < Version130 then Oldest else if v < Version200 then Mid
                  else if v < Version210 then Newer else Newest)"

fun header_bytes :: "family \<Rightarrow> FileHeader \<Rightarrow> byte list" where
  "header_bytes Oldest h =
     le_bytes 4 (Signature h) @ le_bytes 4 (Version h) @ le_bytes 4 (ucast (PID h) :: 32 word)
     @ le_bytes 8 (CPUFrequency h) @ le_bytes 8 (BeginTime h) @ le_bytes 8 (EndTime h)
     @ le_bytes 4 (BlocksCount h) @ le_bytes 8 (MemorySize h)
     @ le_bytes 4 (DescriptorsCount h) @ le_bytes 8 (DescriptorsMemorySize h)"
| "header_bytes Mid h =
     le_bytes 4 (Signature h) @ le_bytes 4 (Version h) @ le_bytes 8 (PID h)
     @ le_bytes 8 (CPUFrequency h) @ le_bytes 8 (BeginTime h) @ le_bytes 8 (EndTime h)
     @ le_bytes 4 (BlocksCount h) @ le_bytes 8 (MemorySize h)
     @ le_bytes 4 (DescriptorsCount h) @ le_bytes 8 (DescriptorsMemorySize h)"
| "header_bytes Newer h =
     le_bytes 4 (Signature h) @ le_bytes 4 (Version h) @ le_bytes 8 (PID h)
     @ le_bytes 8 (CPUFrequency h) @ le_bytes 8 (BeginTime h) @ le_bytes 8 (EndTime h)
     @ le_bytes 8 (MemorySize h) @ le_bytes 8 (DescriptorsMemorySize h)
     @ le_bytes 4 (BlocksCount h) @ le_bytes 4 (DescriptorsCount h)"
| "header_bytes Newest h =
     le_bytes 4 (Signature h) @ le_bytes 4 (Version h) @ le_bytes 8 (PID h)
     @ le_bytes 8 (CPUFrequency h) @ le_bytes 8 (BeginTime h) @ le_bytes 8 (EndTime h)
     @ le_bytes 8 (MemorySize h) @ le_bytes 8 (DescriptorsMemorySize h)
     @ le_bytes 4 (BlocksCount h) @ le_bytes 4 (DescriptorsCount h)
     @ le_bytes 4 (ThreadsCount h) @ le_bytes 2 (BookmarksCount h) @ le_bytes 2 (Padding h)"

text \<open>
  The header values a layout can hold: a process id that fits the oldest family's 32
  bits, and no thread count, bookmark count or padding before the newest family.
\<close>

fun representable :: "family \<Rightarrow> FileHeader \<Rightarrow> bool" where
  "representable Oldest h =
     (PID h < 2 ^ 32 \<and> ThreadsCount h = 0 \<and> BookmarksCount h = 0 \<and> Padding h = 0)"
| "representable Mid h = (ThreadsCount h = 0 \<and> BookmarksCount h = 0 \<and> Padding h = 0)"
| "representable Newer h = (ThreadsCount h = 0 \<and> BookmarksCount h = 0 \<and> Padding h = 0)"
| "representable Newest h = True"

definition example_header :: "32 word \<Rightarrow> 32 word \<Rightarrow> FileHeader" where
  "example_header v threads =
     \<lparr>Signature = EasyProfilerSignature, Version = v, PID = 4242, CPUFrequency = 1000,
      BeginTime = 16, EndTime = 32, MemorySize = 2048, DescriptorsMemorySize = 128,
      BlocksCount = 3, DescriptorsCount = 0, ThreadsCount = threads, BookmarksCount = 0,
      Padding = 0\<rparr>"

text \<open>
  The fixed part of a descriptor record, with the declared total size and the declared
  name length as they stand in the file; the name and file bytes follow it.
\<close>

definition descriptor_bytes ::
  "16 word \<Rightarrow> 32 word \<Rightarrow> 32 word \<Rightarrow> 32 word \<Rightarrow> 8 word \<Rightarrow> 8 word \<Rightarrow> 16 word \<Rightarrow> byte list"
  where
  "descriptor_bytes sz ident line color kind status nameLength =
     le_bytes 2 sz @ le_bytes 4 ident @ le_bytes 4 line @ le_bytes 4 color
     @ le_bytes 1 kind @ le_bytes 1 status @ le_bytes 2 nameLength"

text \<open>An event record and a thread record; \<open>tid\<close> is the encoded thread identifier.\<close>

definition block_bytes :: "64 word \<Rightarrow> 64 word \<Rightarrow> 32 word \<Rightarrow> byte list \<Rightarrow> byte list" where
  "block_bytes b e ident name =
     le_bytes 2 (20 + word_of_nat (length name) :: 16 word) @ le_bytes 8 b @ le_bytes 8 e
     @ le_bytes 4 ident @ name"

definition thread_bytes ::
  "byte list \<Rightarrow> byte list \<Rightarrow> byte list list \<Rightarrow> byte list list \<Rightarrow> byte list" where
  "thread_bytes tid name css blocks =
     tid @ le_bytes 2 (word_of_nat (length name) :: 16 word) @ name
     @ le_bytes 4 (word_of_nat (length css) :: 32 word) @ concat css
     @ le_bytes 4 (word_of_nat (length blocks) :: 32 word) @ concat blocks"

text \<open>
  A newest-family capture with no descriptors and two threads, of two events and of one
  event, closed by the end signature.
\<close>

definition two_thread_file :: "byte list" where
  "two_thread_file =
     header_bytes Newest (zero_FileHeader\<lparr>Signature := EasyProfilerSignature,
        Version := Version210, EndTime := 30, ThreadsCount := 2\<rparr>)
     @ thread_bytes (le_bytes 8 (1 :: 64 word)) [] []
         [block_bytes 0 10 0 [], block_bytes 10 30 0 []]
     @ thread_bytes (le_bytes 8 (2 :: 64 word)) [] [] [block_bytes 0 5 0 []]
     @ le_bytes 4 EasyProfilerSignature"

text \<open>
  A reader that has decoded a header of version \<open>v\<close> and stands before a thread list
  holding one thread, after which the file ends.
\<close>

definition one_thread_then_eof :: "32 word \<Rightarrow> byte list \<Rightarrow> Reader" where
  "one_thread_then_eof v tid =
     \<lparr>reader = thread_bytes tid [] [] [block_bytes 0 10 0 []],
      data = NewProfileData\<lparr>Header := zero_FileHeader\<lparr>Signature := EasyProfilerSignature,
               Version := v\<rparr>\<rparr>,
      options = DefaultReadOptions\<rparr>"

text \<open>
  A decoded model with one thread: two calls of \<open>f\<close> lasting 1 and 2 nanoseconds, the
  second with a nested call of \<open>g\<close>; no descriptors.
\<close>

definition example_profile :: ProfileData where
  "example_profile = NewProfileData\<lparr>Threads :=
     [(1, \<lparr>ThreadID = 1, ThreadName = ''main'', ContextSwitches = [],
           Blocks = [Block 0 1 0 ''f'' [],
                     Block 0 2 0 ''f'' [Block 1 2 0 ''g'' []]]\<rparr>)]\<rparr>"

section \<open>Notions used by the properties\<close>

text \<open>
  The per-thread total durations as integers, and the condition of the thread-imbalance
  rule as the specification words it: at least two threads, a nonzero minimum, and a
  ratio of maximum to minimum above 2.
\<close>

definition thread_totals :: "ProfileData \<Rightarrow> int list" where
  "thread_totals p =
     map (\<lambda>(threadID, thread). sint (calculateThreadDuration (Blocks thread))) (Threads p)"

definition imbalanced :: "ProfileData \<Rightarrow> bool" where
  "imbalanced p \<longleftrightarrow>
     2 \<le> length (Threads p)
     \<and> Min (set (thread_totals p)) \<noteq> 0
     \<and> 2 < (of_int (Max (set (thread_totals p))) :: rat) / of_int (Min (set (thread_totals p)))"

text \<open>A model of two threads, each with one top-level event of the given duration.\<close>

definition two_threads :: "64 word \<Rightarrow> 64 word \<Rightarrow> ProfileData" where
  "two_threads d1 d2 = NewProfileData\<lparr>Threads :=
     [(1, \<lparr>ThreadID = 1, ThreadName = ''a'', ContextSwitches = [],
           Blocks = [Block 0 d1 0 [] []]\<rparr>),
      (2, \<lparr>ThreadID = 2, ThreadName = ''b'', ContextSwitches = [],
           Blocks = [Block 0 d2 0 [] []]\<rparr>)]\<rparr>"

text \<open>
  What the average of a bucket is to its total: the bucket has been called, the average
  is the total divided by the call count with the quotient truncated towards zero, and
  so count times average misses the total by the remainder of that division, which is
  smaller in magnitude than the count.
\<close>

definition average_consistent :: "BlockInfo \<Rightarrow> bool" where
  "average_consistent h \<longleftrightarrow>
     0 < bi_CallCount h
     \<and> sint (bi_AvgDuration h) = sint (bi_Duration h) sdiv bi_CallCount h
     \<and> bi_CallCount h * sint (bi_AvgDuration h) + sint (bi_Duration h) smod bi_CallCount h
         = sint (bi_Duration h)
     \<and> \<bar>sint (bi_Duration h) smod bi_CallCount h\<bar> < bi_CallCount h"

text \<open>The sum of the call counts of a bucket map, and that every bucket has been called.\<close>

definition calls :: "(string \<times> BlockInfo) list \<Rightarrow> int" where
  "calls m = (\<Sum>(k, info) \<leftarrow> m. bi_CallCount info)"

definition counted :: "(string \<times> BlockInfo) list \<Rightarrow> bool" where
  "counted m = (\<forall>(k, info) \<in> set m. 0 < bi_CallCount info)"

text \<open>
  Setting the three options \<^verbatim>\<open>MaxBlockDepth\<close>, \<^verbatim>\<open>SampleBlocks\<close> and
  \<^verbatim>\<open>MaxThreads\<close> of a reader, and carrying a change of the reader through the
  results of the decoding functions.
\<close>

definition set_knobs :: "int \<Rightarrow> int \<Rightarrow> int \<Rightarrow> Reader \<Rightarrow> Reader" where
  "set_knobs d n m r =
     r\<lparr>options := (options r)\<lparr>MaxBlockDepth := d, SampleBlocks := n, MaxThreads := m\<rparr>\<rparr>"

fun rmap :: "('a \<Rightarrow> 'b) \<Rightarrow> 'a result \<Rightarrow> 'b result" where
  "rmap f (Ok x) = Ok (f x)"
| "rmap f (Err e) = Err e"
| "rmap f Panic = Panic"

fun smap :: "(Reader \<Rightarrow> Reader) \<Rightarrow> step \<Rightarrow> step" where
  "smap f (Continue r) = Continue (f r)"
| "smap f Break = Break"
| "smap f (ReturnNil r) = ReturnNil (f r)"
| "smap f (ReturnErr e) = ReturnErr e"
| "smap f StepPanic = StepPanic"

fun lmap :: "(Reader \<Rightarrow> Reader) \<Rightarrow> loop_end \<Rightarrow> loop_end" where
  "lmap f (Exited k r) = Exited k (f r)"
| "lmap f (Returned res) = Returned (rmap f res)"

chapter \<open>Properties\<close>

section \<open>Little-endian reads\<close>

lemma length_le_bytes [simp]: "length (le_bytes n w) = n"
  by (induction n arbitrary: w) simp_all

lemma le_word_le_bytes: "(le_word (le_bytes n w) :: 'a::len word) = take_bit (8 * n) w"
proof (induction n arbitrary: w)
  case 0
  show ?case by simp
next
  case (Suc n)
  show ?case
    apply (simp add: Suc)
    apply (rule bit_eqI)
    apply (auto simp add: bit_simps)
    done
qed

lemma binary_Read_le_bytes:
  "LENGTH('a) = 8 * n \<Longrightarrow> binary_Read (le_bytes n w @ rest) = Ok (w :: 'a::len word, rest)"
  by (simp add: binary_Read_def ReadFull_def le_word_le_bytes take_bit_word_eq_self)

lemma binary_Read_le_bytes_nil:
  "LENGTH('a) = 8 * n \<Longrightarrow> binary_Read (le_bytes n w) = Ok (w :: 'a::len word, [])"
  using binary_Read_le_bytes [of n w "[]"] by simp

lemma ucast_pid: "(p :: 64 word) < 2 ^ 32 \<Longrightarrow> ucast (ucast p :: 32 word) = p"
proof -
  assume lt: "p < 2 ^ 32"
  have "(ucast (ucast p :: 32 word) :: 64 word) = take_bit 32 p"
    by (rule bit_eqI) (auto simp add: bit_simps)
  also have "\<dots> = p"
    using less_mask_eq [OF lt] by (simp add: take_bit_eq_mask)
  finally show ?thesis .
qed

section \<open>Header layouts\<close>

lemma family_of_cases:
  "family_of v = Oldest \<Longrightarrow> v < Version130 \<and> v < Version200"
  "family_of v = Mid \<Longrightarrow> \<not> v < Version130 \<and> v < Version200"
  "family_of v = Newer \<Longrightarrow> \<not> v < Version130 \<and> \<not> v < Version200 \<and> \<not> Version210 \<le> v"
  "family_of v = Newest \<Longrightarrow> \<not> v < Version130 \<and> \<not> v < Version200 \<and> Version210 \<le> v"
  by (auto simp add: family_of_def Version130_def Version200_def Version210_def
        word_less_nat_alt word_le_nat_alt split: if_splits)

lemmas readHeader_unfold =
  readHeader_def NewReaderWithOptions_def NewProfileData_def zero_FileHeader_def
  binary_Read_le_bytes

text \<open>
  C1. For each of the four version families, a header built in that family's layout from
  fixed field values decodes to a header holding exactly those values, with the cursor
  left right behind it. The values are those the layout can hold: the oldest family
  stores 32 bits of process id, and only the newest family stores a thread count, a
  bookmark count and padding.
\<close>

theorem readHeader_roundtrip:
  assumes "representable (family_of (Version h)) h"
  shows "readHeader (NewReaderWithOptions (header_bytes (family_of (Version h)) h @ rest) opts)
         = Ok \<lparr>reader = rest, data = NewProfileData\<lparr>Header := h\<rparr>, options = opts\<rparr>"
proof (cases "family_of (Version h)")
  case Oldest
  with assms family_of_cases(1) [OF Oldest] show ?thesis
    by (simp add: readHeader_unfold ucast_pid)
next
  case Mid
  with assms family_of_cases(2) [OF Mid] show ?thesis
    by (simp add: readHeader_unfold)
next
  case Newer
  with assms family_of_cases(3) [OF Newer] show ?thesis
    by (simp add: readHeader_unfold)
next
  case Newest
  with assms family_of_cases(4) [OF Newest] show ?thesis
    by (simp add: readHeader_unfold)
qed

lemma example_families:
  "family_of (Version (example_header Version100 0)) = Oldest"
  "family_of (Version (example_header Version130 0)) = Mid"
  "family_of (Version (example_header Version200 0)) = Newer"
  "family_of (Version (example_header Version210 5)) = Newest"
  by (simp_all add: family_of_def example_header_def Version100_def Version130_def
        Version200_def Version210_def)

theorem readHeader_roundtrip_witness:
  "representable Oldest (example_header Version100 0)
   \<and> readHeader (NewReaderWithOptions
        (header_bytes Oldest (example_header Version100 0) @ [1, 2]) DefaultReadOptions)
     = Ok \<lparr>reader = [1, 2],
           data = NewProfileData\<lparr>Header := example_header Version100 0\<rparr>,
           options = DefaultReadOptions\<rparr>
   \<and> readHeader (NewReaderWithOptions
        (header_bytes Mid (example_header Version130 0) @ [1, 2]) DefaultReadOptions)
     = Ok \<lparr>reader = [1, 2],
           data = NewProfileData\<lparr>Header := example_header Version130 0\<rparr>,
           options = DefaultReadOptions\<rparr>
   \<and> readHeader (NewReaderWithOptions
        (header_bytes Newer (example_header Version200 0) @ [1, 2]) DefaultReadOptions)
     = Ok \<lparr>reader = [1, 2],
           data = NewProfileData\<lparr>Header := example_header Version200 0\<rparr>,
           options = DefaultReadOptions\<rparr>
   \<and> readHeader (NewReaderWithOptions
        (header_bytes Newest (example_header Version210 5) @ [1, 2]) DefaultReadOptions)
     = Ok \<lparr>reader = [1, 2],
           data = NewProfileData\<lparr>Header := example_header Version210 5\<rparr>,
           options = DefaultReadOptions\<rparr>"
proof -
  have r: "representable Oldest (example_header Version100 0)"
    "representable Mid (example_header Version130 0)"
    "representable Newer (example_header Version200 0)"
    "representable Newest (example_header Version210 5)"
    by (simp_all add: example_header_def)
  show ?thesis
    using r
      readHeader_roundtrip [of "example_header Version100 0" "[1, 2]" DefaultReadOptions]
      readHeader_roundtrip [of "example_header Version130 0" "[1, 2]" DefaultReadOptions]
      readHeader_roundtrip [of "example_header Version200 0" "[1, 2]" DefaultReadOptions]
      readHeader_roundtrip [of "example_header Version210 5" "[1, 2]" DefaultReadOptions]
    by (simp only: example_families simp_thms)
qed

section \<open>Descriptors\<close>

text \<open>
  C9. A descriptor record whose 16-bit name-length field is zero makes the decoder slice
  the empty name buffer with the bound \<open>-1\<close>: whatever the other fields and the rest of
  the file are, the call panics; it returns neither a descriptor nor an error.
\<close>

theorem readDescriptor_zero_name_length_panics:
  "readDescriptor (descriptor_bytes sz ident line color kind status 0 @ rest) = Panic"
  by (simp add: readDescriptor_def descriptor_bytes_def binary_Read_le_bytes ReadFull_def
        slice_to_def del: le_bytes.simps)

lemma neg17_u16: "(- 17 :: 16 word) = 65519"
  by simp

text \<open>
  C2. A descriptor that declares total size 0 and name length 1 has the remaining size
  \<open>0 - (16 + 1) = -17\<close>. The decoder computes it on \<^verbatim>\<open>uint16\<close>, gets 65519, and takes
  the next 65519 bytes of the file as the file path: the record is accepted, no error
  is returned.
\<close>

theorem readDescriptor_wrapped_size_accepted:
  "readDescriptor (descriptor_bytes 0 7 1 0 1 0 1 @ [0] @ replicate 65519 0x2F @ rest)
   = Ok (\<lparr>desc_ID = 7, desc_Line = 1, desc_Color = 0, desc_Type = 1, desc_Status = 0,
           desc_Name = [], desc_File = string_of_bytes (replicate 65518 0x2F)\<rparr>, rest)"
  by (simp add: readDescriptor_def descriptor_bytes_def binary_Read_le_bytes ReadFull_def
        slice_to_def string_of_bytes_def neg17_u16 Let_def del: le_bytes.simps)

section \<open>Threads\<close>

lemma readBlock_block_bytes_noname:
  "readBlock (block_bytes b e ident [] @ rest) = Ok (Block b e ident [] [], rest)"
  by (simp add: readBlock_def block_bytes_def binary_Read_le_bytes del: le_bytes.simps)

lemma readBlock_block_bytes_noname_nil:
  "readBlock (block_bytes b e ident []) = Ok (Block b e ident [] [], [])"
  using readBlock_block_bytes_noname [of b e ident "[]"] by simp

subsection \<open>End of stream in the thread list\<close>

lemma binary_Read_EOF_iff:
  "8 \<le> LENGTH('a) \<Longrightarrow>
     (binary_Read r :: ('a::len word \<times> byte list) result) = Err EOF \<longleftrightarrow> r = []"
proof -
  assume "8 \<le> LENGTH('a)"
  then have "0 < LENGTH('a) div 8" by (simp add: div_greater_zero_iff)
  then show ?thesis
    by (auto simp add: binary_Read_def ReadFull_def split_def)
qed

lemma storeThread_not_Break: "storeThread r tid rest \<noteq> Break"
  by (simp add: storeThread_def split: result.splits)

lemma readThreads_body_Break:
  assumes "readThreads_body e r = Break"
  shows "reader r = []"
proof (cases "Version (Header (data r)) < Version130")
  case True
  with assms have "(binary_Read (reader r) :: (32 word \<times> byte list) result) = Err EOF"
    by (auto simp add: readThreads_body_def storeThread_not_Break
          split: result.splits if_splits)
  then show ?thesis by (simp add: binary_Read_EOF_iff)
next
  case False
  with assms have "(binary_Read (reader r) :: (64 word \<times> byte list) result) = Err EOF"
    by (auto simp add: readThreads_body_def storeThread_not_Break
          split: result.splits if_splits)
  then show ?thesis by (simp add: binary_Read_EOF_iff)
qed

lemma readThreads_loop_Exited:
  "readThreads_loop k0 e r = Exited k r' \<Longrightarrow> k < e \<Longrightarrow> reader r' = []"
proof (induction k0 e r rule: readThreads_loop.induct)
  case (1 k0 e r)
  show ?case
  proof (cases "k0 < e")
    case False
    with "1.prems" show ?thesis by (simp add: readThreads_loop.simps [of k0 e r])
  next
    case True
    show ?thesis
    proof (cases "readThreads_body e r")
      case (Continue r'')
      with True "1.prems" "1.IH" [OF True Continue] show ?thesis
        by (simp add: readThreads_loop.simps [of k0 e r])
    next
      case Break
      with True "1.prems" readThreads_body_Break [OF Break] show ?thesis
        by (simp add: readThreads_loop.simps [of k0 e r])
    qed (use True "1.prems" in \<open>simp_all add: readThreads_loop.simps [of k0 e r]\<close>)
  qed
qed

text \<open>
  In a family without a thread count the loop can only be left by its \<^verbatim>\<open>break\<close>
  before \<open>0xFFFFFFFF\<close> threads have been read, and then the file is exhausted: the
  read of the end signature fails and the thread list is rejected.
\<close>

lemma readThreads_eof_never_ends_list:
  assumes "Version (Header (data r)) < Version210"
    and "readThreads_loop 0 0xFFFFFFFF r = Exited k r'"
    and "k < 0xFFFFFFFF"
  shows "readThreads r = Err (FailedToReadEndSignature EOF)"
proof -
  from readThreads_loop_Exited [OF assms(2,3)] have "reader r' = []" .
  then have "(binary_Read (reader r') :: (32 word \<times> byte list) result) = Err EOF"
    by (simp add: binary_Read_EOF_iff)
  with assms show ?thesis
    by (simp add: readThreads_def)
qed


text \<open>
  C3. In the three families without a thread count, a file that ends after a complete
  thread record makes the read of the next thread identifier report end-of-stream. The
  loop is left, the read of the end signature reports end-of-stream again, and because
  the number of threads read is not the placeholder count \<open>0xFFFFFFFF\<close> the thread list
  is rejected with an error.
\<close>

theorem readThreads_eof_is_error:
  "readThreads (one_thread_then_eof Version100 (le_bytes 4 (7 :: 32 word)))
     = Err (FailedToReadEndSignature EOF)
   \<and> readThreads (one_thread_then_eof Version130 (le_bytes 8 (7 :: 64 word)))
     = Err (FailedToReadEndSignature EOF)
   \<and> readThreads (one_thread_then_eof Version200 (le_bytes 8 (7 :: 64 word)))
     = Err (FailedToReadEndSignature EOF)"
  by (simp add: readThreads_def one_thread_then_eof_def NewProfileData_def zero_FileHeader_def
      Version100_def Version130_def Version200_def Version210_def thread_bytes_def
      readThreads_loop.simps readThreads_body_def storeThread_def readThread_def
      binary_Read_le_bytes for_loop.simps readBlock_block_bytes_noname_nil
      EasyProfilerSignature_def DefaultReadOptions_def binary_Read_def [of "[]"] ReadFull_def
      del: le_bytes.simps)

subsection \<open>The options that are never read\<close>

lemma rmap_rbind: "rmap f (rbind m g) = rbind m (\<lambda>x. rmap f (g x))"
  by (cases m) simp_all

lemma rbind_rmap: "rbind (rmap f m) g = rbind m (\<lambda>x. g (f x))"
  by (cases m) simp_all

lemma rbind_if: "rbind (if c then a else b) g = (if c then rbind a g else rbind b g)"
  by simp

lemma rmap_wrap_err: "rmap f (wrap_err w m) = wrap_err w (rmap f m)"
  by (cases m) simp_all

lemma set_knobs_simps [simp]:
  "reader (set_knobs d n m r) = reader r"
  "data (set_knobs d n m r) = data r"
  "SkipContextSwitches (options (set_knobs d n m r)) = SkipContextSwitches (options r)"
  "SkipBookmarks (options (set_knobs d n m r)) = SkipBookmarks (options r)"
  "set_knobs d n m (r\<lparr>reader := x\<rparr>) = (set_knobs d n m r)\<lparr>reader := x\<rparr>"
  "set_knobs d n m (r\<lparr>data := y\<rparr>) = (set_knobs d n m r)\<lparr>data := y\<rparr>"
  by (simp_all add: set_knobs_def)

lemma readHeader_knobs:
  "readHeader (set_knobs d n m r) = rmap (set_knobs d n m) (readHeader r)"
  by (simp add: readHeader_def rmap_rbind split_def Let_def
        if_distrib [of "rmap (set_knobs d n m)"] cong: if_cong)

lemma for_loop_rmap:
  assumes "\<And>i s. body' i (f s) = rmap f (body i s)"
  shows "for_loop i n body' (f s) = rmap f (for_loop i n body s)"
  using assms
proof (induction i n body s rule: for_loop.induct)
  case (1 i n body s)
  note step = "1.prems" [of i s]
  show ?case
  proof (cases "i < n")
    case False
    then show ?thesis by (simp add: for_loop.simps)
  next
    case True
    show ?thesis
    proof (cases "body i s")
      case (Ok s')
      with step have "body' i (f s) = Ok (f s')" by simp
      with True "1.IH" [OF True Ok "1.prems"] Ok show ?thesis
        by (simp add: for_loop.simps [of i n body' "f s"] for_loop.simps [of i n body s])
    next
      case (Err e)
      with step have "body' i (f s) = Err e" by simp
      with True Err show ?thesis
        by (simp add: for_loop.simps [of i n body' "f s"] for_loop.simps [of i n body s])
    next
      case Panic
      with step have "body' i (f s) = Panic" by simp
      with True Panic show ?thesis
        by (simp add: for_loop.simps [of i n body' "f s"] for_loop.simps [of i n body s])
    qed
  qed
qed

lemma readDescriptors_knobs:
  "readDescriptors (set_knobs d n m r) = rmap (set_knobs d n m) (readDescriptors r)"
  unfolding readDescriptors_def
  by (simp, rule for_loop_rmap) (simp add: rmap_rbind rmap_wrap_err split_def)

lemma readThread_knobs:
  "readThread (options (set_knobs d n m r)) = readThread (options r)"
  by (intro ext) (simp add: readThread_def)

lemma storeThread_knobs:
  "storeThread (set_knobs d n m r) tid rest = smap (set_knobs d n m) (storeThread r tid rest)"
  by (simp add: storeThread_def readThread_knobs split: result.splits)

lemma readThreads_body_knobs:
  "readThreads_body e (set_knobs d n m r) = smap (set_knobs d n m) (readThreads_body e r)"
  by (simp add: readThreads_body_def storeThread_knobs split: result.splits)

lemma readThreads_loop_knobs:
  "readThreads_loop k e (set_knobs d n m r) = lmap (set_knobs d n m) (readThreads_loop k e r)"
proof (induction k e r rule: readThreads_loop.induct)
  case (1 k e r)
  show ?case
  proof (cases "k < e")
    case False
    then show ?thesis by (simp add: readThreads_loop.simps)
  next
    case True
    show ?thesis
    proof (cases "readThreads_body e r")
      case (Continue r')
      with True "1.IH" [OF True Continue] show ?thesis
        by (simp add: readThreads_loop.simps [of k e "set_knobs d n m r"]
              readThreads_loop.simps [of k e r] readThreads_body_knobs)
    qed (use True in \<open>simp_all add: readThreads_loop.simps [of k e "set_knobs d n m r"]
              readThreads_loop.simps [of k e r] readThreads_body_knobs\<close>)
  qed
qed

lemma readThreads_knobs:
  "readThreads (set_knobs d n m r) = rmap (set_knobs d n m) (readThreads r)"
  by (simp add: readThreads_def readThreads_loop_knobs Let_def
        split: loop_end.splits result.splits)

lemma readBookmarks_knobs:
  "readBookmarks (set_knobs d n m r) = rmap (set_knobs d n m) (readBookmarks r)"
proof -
  have "for_loop 0 (BookmarksCount (Header (data r)))
          (\<lambda>i r. rbind (wrap_err (FailedToReadBookmark i) (readBookmark (reader r)))
             (\<lambda>(bookmark, rest).
                Ok (r\<lparr>reader := rest,
                       data := (data r)\<lparr>Bookmarks := Bookmarks (data r) @ [bookmark]\<rparr>\<rparr>)))
          (set_knobs d n m r)
        = rmap (set_knobs d n m)
           (for_loop 0 (BookmarksCount (Header (data r)))
              (\<lambda>i r. rbind (wrap_err (FailedToReadBookmark i) (readBookmark (reader r)))
                 (\<lambda>(bookmark, rest).
                    Ok (r\<lparr>reader := rest,
                           data := (data r)\<lparr>Bookmarks := Bookmarks (data r) @ [bookmark]\<rparr>\<rparr>)))
              r)"
    by (rule for_loop_rmap) (simp add: rmap_rbind rmap_wrap_err split_def)
  then show ?thesis
    by (simp add: readBookmarks_def rbind_rmap rmap_rbind split_def
          if_distrib [of "rmap (set_knobs d n m)"] cong: if_cong)
qed

text \<open>
  No byte source is decoded differently for any setting of \<^verbatim>\<open>MaxBlockDepth\<close>,
  \<^verbatim>\<open>SampleBlocks\<close> and \<^verbatim>\<open>MaxThreads\<close>.
\<close>

lemma Parse_knobs_irrelevant:
  "Parse (set_knobs d n m r) = Parse r"
  by (simp add: Parse_def readHeader_knobs readDescriptors_knobs readThreads_knobs
        readBookmarks_knobs rbind_rmap rmap_wrap_err [symmetric] split_def Let_def rbind_if
        cong: if_cong)


text \<open>
  C4. Decoding the two-thread capture with \<^verbatim>\<open>MaxBlockDepth = 1\<close>,
  \<^verbatim>\<open>SampleBlocks = 2\<close> and \<^verbatim>\<open>MaxThreads = 1\<close> returns both threads and all three
  events: the thread cap and the sampling rate change nothing.
\<close>

theorem Parse_ignores_knobs:
  "Parse (NewReaderWithOptions two_thread_file
            \<lparr>MaxBlockDepth = 1, SampleBlocks = 2, SkipContextSwitches = False,
             SkipBookmarks = False, MaxThreads = 1\<rparr>)
   = Ok \<lparr>Header = zero_FileHeader\<lparr>Signature := EasyProfilerSignature,
                  Version := Version210, EndTime := 30, ThreadsCount := 2\<rparr>,
          Descriptors = Map.empty,
          Threads = [(1, \<lparr>ThreadID = 1, ThreadName = [], ContextSwitches = [],
                          Blocks = [Block 0 10 0 [] [], Block 10 30 0 [] []]\<rparr>),
                     (2, \<lparr>ThreadID = 2, ThreadName = [], ContextSwitches = [],
                          Blocks = [Block 0 5 0 [] []]\<rparr>)],
          Bookmarks = [], TotalBlocksCount = 3, MemoryUsedBytes = 0\<rparr>"
  apply (simp add: Parse_def two_thread_file_def thread_bytes_def)
  apply (simp add: readHeader_unfold Version130_def Version200_def Version210_def
      EasyProfilerSignature_def MinCompatibleVersion_def del: le_bytes.simps)
  apply (simp add: readDescriptors_def for_loop.simps del: le_bytes.simps)
  apply (simp add: readThreads_def Version210_def del: le_bytes.simps)
  apply (subst readThreads_loop.simps)
  apply (simp add: readThreads_body_def Version130_def storeThread_def readThread_def
      binary_Read_le_bytes for_loop.simps readBlock_block_bytes_noname Version210_def
      EasyProfilerSignature_def del: le_bytes.simps)
  apply (subst readThreads_loop.simps)
  apply (simp add: readThreads_body_def Version130_def storeThread_def readThread_def
      binary_Read_le_bytes for_loop.simps readBlock_block_bytes_noname Version210_def
      EasyProfilerSignature_def del: le_bytes.simps)
  apply (subst readThreads_loop.simps)
  apply (simp add: binary_Read_le_bytes_nil GetBlocksCount_def EasyProfilerSignature_def
      del: le_bytes.simps)
  done

section \<open>Durations\<close>

lemma sint64_uint:
  fixes w :: "64 word"
  shows "sint w = (if uint w < 2 ^ 63 then uint w else uint w - 2 ^ 64)"
proof -
  have b: "0 \<le> uint w" "uint w < 2 ^ 64"
    using uint_lt2p [of w] by simp_all
  have "sint w = take_bit 64 (uint w + 2 ^ 63) - 2 ^ 63"
    by (simp add: sint_uint signed_take_bit_eq_take_bit_shift)
  also have "\<dots> = (uint w + 2 ^ 63) mod 2 ^ 64 - 2 ^ 63"
    by (simp add: take_bit_eq_mod)
  also have "\<dots> = (if uint w < 2 ^ 63 then uint w else uint w - 2 ^ 64)"
  proof (cases "uint w < 2 ^ 63")
    case True
    with b have "(uint w + 2 ^ 63) mod 2 ^ 64 = uint w + 2 ^ 63"
      by (intro mod_pos_pos_trivial) simp_all
    with True show ?thesis by simp
  next
    case False
    with b have "(uint w + 2 ^ 63) mod 2 ^ 64 = uint w + 2 ^ 63 - 2 ^ 64"
      by (subst mod_pos_geq) (simp_all add: mod_pos_pos_trivial)
    with False show ?thesis by simp
  qed
  finally show ?thesis .
qed

lemma sint64_nonneg_iff:
  fixes w :: "64 word"
  shows "0 \<le> sint w \<longleftrightarrow> w < 2 ^ 63"
proof -
  have b: "0 \<le> uint w" "uint w < 2 ^ 64"
    using uint_lt2p [of w] by simp_all
  have "w < 2 ^ 63 \<longleftrightarrow> uint w < 2 ^ 63"
    by (simp add: word_less_def)
  with b show ?thesis
    by (auto simp add: sint64_uint)
qed

text \<open>
  C8, as stated, fails: the decoder accepts an event record whose end timestamp lies one
  nanosecond before its begin timestamp, and the duration of that event is \<open>-1\<close>.
\<close>

theorem Duration_negative_counterexample:
  "readBlock (block_bytes 1 0 0 []) = Ok (Block 1 0 0 [] [], [])
   \<and> sint (Duration (Block 1 0 0 [] [])) = - 1"
  by (simp add: readBlock_block_bytes_noname_nil Duration_def)

text \<open>
  C8, amended. The duration of a block is non-negative exactly when end minus begin,
  computed modulo \<open>2 ^ 64\<close>, is below \<open>2 ^ 63\<close>. In particular, when the end is not
  before the begin and lies less than \<open>2 ^ 63\<close> nanoseconds after it, the duration is
  the difference of the two timestamps.
\<close>

theorem Duration_nonneg_iff:
  "(0 \<le> sint (Duration b) \<longleftrightarrow> End b - Begin b < 2 ^ 63) \<and>
   (Begin b \<le> End b \<and> End b - Begin b < 2 ^ 63
      \<longrightarrow> sint (Duration b) = uint (End b) - uint (Begin b))"
proof -
  have 1: "0 \<le> sint (Duration b) \<longleftrightarrow> End b - Begin b < 2 ^ 63"
    by (simp add: Duration_def sint64_nonneg_iff)
  have 2: "sint (Duration b) = uint (End b) - uint (Begin b)"
    if le: "Begin b \<le> End b" and lt: "End b - Begin b < 2 ^ 63"
  proof -
    from le have "uint (End b - Begin b) = uint (End b) - uint (Begin b)"
      by (simp add: uint_sub_lem [symmetric] word_le_def)
    moreover from lt have "uint (End b - Begin b) < 2 ^ 63"
      by (simp add: word_less_def)
    ultimately show ?thesis
      by (simp add: Duration_def sint64_uint)
  qed
  from 1 2 show ?thesis by blast
qed

theorem Duration_nonneg_iff_witness:
  "(16 :: 64 word) \<le> 32 \<and> (32 :: 64 word) - 16 < 2 ^ 63
   \<and> sint (Duration (Block 16 32 0 [] [])) = 16"
  using Duration_nonneg_iff [of "Block 16 32 0 [] []"] by simp

section \<open>Sorting\<close>

lemma length_sort_insert [simp]: "length (sort_insert lt x ys) = Suc (length ys)"
  by (induction ys) simp_all

lemma set_sort_insert [simp]: "set (sort_insert lt x ys) = insert x (set ys)"
  by (induction ys) auto

lemma sorted_sort_insert:
  fixes k :: "'a \<Rightarrow> int"
  assumes "sorted_wrt (\<lambda>a b. k b \<le> k a) ys"
  shows "sorted_wrt (\<lambda>a b. k b \<le> k a) (sort_insert (\<lambda>a b. k b < k a) x ys)"
  using assms by (induction ys) auto

lemma foldl_sort_insert:
  fixes k :: "'a \<Rightarrow> int"
  assumes "sorted_wrt (\<lambda>a b. k b \<le> k a) acc"
  shows "sorted_wrt (\<lambda>a b. k b \<le> k a)
           (foldl (\<lambda>acc x. sort_insert (\<lambda>a b. k b < k a) x acc) acc xs)
       \<and> length (foldl (\<lambda>acc x. sort_insert (\<lambda>a b. k b < k a) x acc) acc xs)
           = length acc + length xs
       \<and> set (foldl (\<lambda>acc x. sort_insert (\<lambda>a b. k b < k a) x acc) acc xs)
           = set acc \<union> set xs"
  using assms
proof (induction xs arbitrary: acc)
  case Nil
  then show ?case by simp
next
  case (Cons x xs)
  from Cons.IH [OF sorted_sort_insert [OF Cons.prems, of x]]
  show ?case by auto
qed

lemma sort_Slice_props:
  fixes k :: "'a \<Rightarrow> int"
  shows "sorted_wrt (\<lambda>a b. k b \<le> k a) (sort_Slice (\<lambda>a b. k b < k a) xs)"
    and "length (sort_Slice (\<lambda>a b. k b < k a) xs) = length xs"
    and "set (sort_Slice (\<lambda>a b. k b < k a) xs) = set xs"
  using foldl_sort_insert [of k "[]" xs] by (simp_all add: sort_Slice_def)

lemma sorted_wrt_take: "sorted_wrt P xs \<Longrightarrow> sorted_wrt P (take n xs)"
  by (metis append_take_drop_id sorted_wrt_append)

section \<open>Slowest events\<close>

lemma length_analyzeBlocksRecursive:
  "int (length (analyzeBlocksRecursive p blocks tid tn)) = countBlocks blocks"
  by (induction p blocks tid tn rule: analyzeBlocksRecursive.induct) simp_all

lemma length_all_blocks:
  "int (length (concat (map (\<lambda>(threadID, thread).
       analyzeBlocksRecursive p (Blocks thread) threadID (ThreadName thread)) ts)))
   = (\<Sum>(tid, thread) \<leftarrow> ts. countBlocks (Blocks thread))"
  by (induction ts) (auto simp add: length_analyzeBlocksRecursive)

lemma example_count: "GetBlocksCount example_profile = 3"
  by (simp add: GetBlocksCount_def example_profile_def NewProfileData_def)

text \<open>
  C5, as stated for every limit, fails: with the limit \<open>-1\<close> the query on the example
  model returns no list, it panics.
\<close>

theorem GetSlowestBlocks_negative_counterexample:
  "GetSlowestBlocks example_profile (- 1) = Panic"
  by (simp add: GetSlowestBlocks_def slice_to_def Let_def)

text \<open>
  C5, amended. For every model and every limit \<open>N \<ge> 0\<close>, the slowest-events query
  returns a list that is sorted non-increasing by duration and whose length is the
  minimum of \<open>N\<close> and the number of events of all threads, nested ones included.
\<close>

theorem GetSlowestBlocks_sorted_clamped:
  assumes "0 \<le> limit"
  shows "\<exists>bs. GetSlowestBlocks p limit = Ok bs
           \<and> sorted_wrt (\<lambda>x y. sint (bi_Duration y) \<le> sint (bi_Duration x)) bs
           \<and> int (length bs) = min limit (GetBlocksCount p)"
proof -
  define all where "all = concat (map (\<lambda>(threadID, thread).
       analyzeBlocksRecursive p (Blocks thread) threadID (ThreadName thread)) (Threads p))"
  define srt where "srt = sort_Slice (\<lambda>x y. sint (bi_Duration y) < sint (bi_Duration x)) all"
  define lim where "lim = (if limit > int (length srt) then int (length srt) else limit)"
  have len: "int (length srt) = GetBlocksCount p"
    unfolding srt_def all_def
    by (simp add: sort_Slice_props(2) [of "\<lambda>x. sint (bi_Duration x)"] length_all_blocks
          GetBlocksCount_def)
  have sorted: "sorted_wrt (\<lambda>x y. sint (bi_Duration y) \<le> sint (bi_Duration x)) srt"
    unfolding srt_def by (rule sort_Slice_props(1) [of "\<lambda>x. sint (bi_Duration x)"])
  have lim: "0 \<le> lim" "lim \<le> int (length srt)" "lim = min limit (GetBlocksCount p)"
    using assms len by (auto simp add: lim_def)
  have "GetSlowestBlocks p limit = slice_to srt lim"
    by (simp add: GetSlowestBlocks_def Let_def srt_def all_def lim_def)
  also have "\<dots> = Ok (take (nat lim) srt)"
    using lim by (simp add: slice_to_def)
  finally have "GetSlowestBlocks p limit = Ok (take (nat lim) srt)" .
  moreover have "sorted_wrt (\<lambda>x y. sint (bi_Duration y) \<le> sint (bi_Duration x))
                   (take (nat lim) srt)"
    using sorted by (rule sorted_wrt_take)
  moreover have "int (length (take (nat lim) srt)) = min limit (GetBlocksCount p)"
    using lim by simp
  ultimately show ?thesis by blast
qed

theorem GetSlowestBlocks_sorted_clamped_witness:
  "(0 :: int) \<le> 2 \<and>
   (\<exists>bs. GetSlowestBlocks example_profile 2 = Ok bs
      \<and> sorted_wrt (\<lambda>x y. sint (bi_Duration y) \<le> sint (bi_Duration x)) bs
      \<and> int (length bs) = 2)"
  using GetSlowestBlocks_sorted_clamped [of 2 example_profile]
  by (simp add: example_count)

text \<open>
  C10. The limit of the slowest-events query and of the hotspots query is clamped from
  above only: with a negative limit both queries slice their result with a negative
  bound and panic, whatever the model holds.
\<close>

theorem negative_limit_panics:
  assumes "limit < 0"
  shows "GetSlowestBlocks p limit = Panic \<and> GetHotspots p limit = Panic"
  using assms by (simp add: GetSlowestBlocks_def GetHotspots_def Let_def slice_to_def)

theorem negative_limit_panics_witness:
  "(- 5 :: int) < 0 \<and> GetBlocksCount example_profile = 3
   \<and> GetSlowestBlocks example_profile (- 5) = Panic
   \<and> GetHotspots example_profile (- 5) = Panic"
  using negative_limit_panics [of "- 5" example_profile]
  by (simp add: example_count)

section \<open>Hotspots\<close>

lemma calls_simps [simp]:
  "calls [] = 0"
  "calls ((k, info) # m) = bi_CallCount info + calls m"
  "calls (m @ m') = calls m + calls m'"
  by (simp_all add: calls_def)

lemma counted_simps [simp]:
  "counted []"
  "counted ((k, info) # m) \<longleftrightarrow> 0 < bi_CallCount info \<and> counted m"
  by (simp_all add: counted_def)

lemma map_assign_None: "map_of m k = None \<Longrightarrow> map_assign m k v = m @ [(k, v)]"
  by (induction m) (auto split: if_splits)

lemma calls_map_assign_Some:
  "map_of m k = Some old \<Longrightarrow>
     calls (map_assign m k v) = calls m - bi_CallCount old + bi_CallCount v"
  by (induction m) (auto split: if_splits)

lemma counted_map_assign:
  "counted m \<Longrightarrow> 0 < bi_CallCount v \<Longrightarrow> counted (map_assign m k v)"
  by (induction m) (auto split: if_splits)

lemma counted_map_of: "counted m \<Longrightarrow> map_of m k = Some old \<Longrightarrow> 0 < bi_CallCount old"
  by (induction m) (auto split: if_splits)

lemma counted_le_calls: "counted m \<Longrightarrow> (k, info) \<in> set m \<Longrightarrow> bi_CallCount info \<le> calls m"
proof (induction m)
  case Nil
  then show ?case by simp
next
  case (Cons a m)
  obtain k' i' where a: "a = (k', i')" by (cases a)
  have nn: "0 \<le> calls m" if "counted m" for m :: "(string \<times> BlockInfo) list"
    using that by (induction m) (auto simp add: less_imp_le)
  from Cons a show ?case
    using nn [of m] by (auto simp add: less_imp_le)
qed

text \<open>Aggregating a forest adds one call per event and leaves every bucket called.\<close>

lemma aggregateBlocks_counts:
  "counted m \<Longrightarrow>
     counted (aggregateBlocks p blocks tid tn m)
     \<and> calls (aggregateBlocks p blocks tid tn m) = calls m + countBlocks blocks"
proof (induction p blocks tid tn m rule: aggregateBlocks.induct)
  case (1 p threadID threadName blockMap)
  then show ?case by simp
next
  case (2 p b e i n cs blocks threadID threadName blockMap)
  define block where "block = Block b e i n cs"
  define key where "key = bucket_key p block"
  define blockMap' where "blockMap' =
            (case map_of blockMap key of
               Some existing \<Rightarrow>
                 map_assign blockMap key
                   (existing\<lparr>bi_Duration := bi_Duration existing + Duration block,
                             bi_CallCount := bi_CallCount existing + 1\<rparr>)
             | None \<Rightarrow> map_assign blockMap key (new_BlockInfo p block threadID threadName))"
  have step: "counted blockMap' \<and> calls blockMap' = calls blockMap + 1"
  proof (cases "map_of blockMap key")
    case None
    with "2.prems" show ?thesis
      by (simp add: blockMap'_def map_assign_None new_BlockInfo_def counted_def)
  next
    case (Some existing)
    with "2.prems" counted_map_of [OF "2.prems" Some] show ?thesis
      by (simp add: blockMap'_def calls_map_assign_Some counted_map_assign)
  qed
  note ih1 = "2.IH"(1) [OF block_def key_def blockMap'_def]
  note ih2 = "2.IH"(2) [OF block_def key_def blockMap'_def]
  from ih1 step have inner: "counted (aggregateBlocks p cs threadID threadName blockMap')"
    "calls (aggregateBlocks p cs threadID threadName blockMap')
       = calls blockMap + 1 + countBlocks cs"
    by simp_all
  have unfold: "aggregateBlocks p (Block b e i n cs # blocks) threadID threadName blockMap
      = aggregateBlocks p blocks threadID threadName
          (aggregateBlocks p cs threadID threadName blockMap')"
    unfolding blockMap'_def key_def block_def by (simp add: Let_def)
  from ih2 [OF inner(1)] inner(2)
  show ?case
    unfolding unfold by simp
qed

lemma fold_threads_counts:
  "counted m \<Longrightarrow>
     counted (foldl (\<lambda>m (threadID, thread).
                aggregateBlocks p (Blocks thread) threadID (ThreadName thread) m) m ts)
     \<and> calls (foldl (\<lambda>m (threadID, thread).
                aggregateBlocks p (Blocks thread) threadID (ThreadName thread) m) m ts)
       = calls m + (\<Sum>(tid, thread) \<leftarrow> ts. countBlocks (Blocks thread))"
proof (induction ts arbitrary: m)
  case Nil
  then show ?case by simp
next
  case (Cons a ts)
  obtain tid thread where a: "a = (tid, thread)" by (cases a)
  from aggregateBlocks_counts [OF Cons.prems, of p "Blocks thread" tid "ThreadName thread"]
  have c: "counted (aggregateBlocks p (Blocks thread) tid (ThreadName thread) m)"
    and n: "calls (aggregateBlocks p (Blocks thread) tid (ThreadName thread) m)
            = calls m + countBlocks (Blocks thread)"
    by simp_all
  from Cons.IH [OF c] n show ?case
    by (simp add: a)
qed

subsection \<open>Signed 64-bit division\<close>

lemma sint_word_of_int_64:
  "- (2 ^ 63) \<le> k \<Longrightarrow> k < 2 ^ 63 \<Longrightarrow> sint (word_of_int k :: 64 word) = k"
  by (simp add: sint_sbintrunc' signed_take_bit_int_eq_self)

lemma int_div_le_nonneg:
  fixes t c :: int
  shows "0 \<le> t \<Longrightarrow> t div c \<le> t"
  using int_div_le_self [of t c] by (cases "t = 0") simp_all

lemma sdiv_bounds:
  fixes t c :: int
  assumes "0 < c" "- (2 ^ 63) \<le> t" "t < 2 ^ 63"
  shows "- (2 ^ 63) \<le> t sdiv c \<and> t sdiv c < 2 ^ 63"
proof (cases "0 \<le> t")
  case True
  with assms have "t sdiv c = t div c"
    by (simp add: signed_divide_int_def sgn_if)
  moreover from True assms have "0 \<le> t div c" "t div c \<le> t"
    by (simp_all add: pos_imp_zdiv_nonneg_iff int_div_le_nonneg)
  ultimately show ?thesis using assms by simp
next
  case False
  with assms have eq: "t sdiv c = - ((- t) div c)"
    by (simp add: signed_divide_int_def sgn_if)
  from False assms have "0 \<le> (- t) div c" "(- t) div c \<le> - t"
    by (simp_all add: pos_imp_zdiv_nonneg_iff int_div_le_nonneg)
  with eq show ?thesis using assms by simp
qed

lemma smod_abs_less:
  fixes t c :: int
  assumes "0 < c"
  shows "\<bar>t smod c\<bar> < c"
  using assms by (simp add: smod_int_alt_def abs_mult sgn_if)

lemma int64_div_sint:
  assumes "0 < c" "c < 2 ^ 63"
  shows "sint (int64_div t (word_of_int c)) = sint t sdiv c"
proof -
  from assms have c: "sint (word_of_int c :: 64 word) = c"
    by (intro sint_word_of_int_64) simp_all
  have "- (2 ^ 63) \<le> sint t" "sint t < 2 ^ 63"
    using sint_ge [of t] sint_lt [of t] by simp_all
  from sdiv_bounds [OF assms(1) this] show ?thesis
    by (simp add: int64_div_def c sint_word_of_int_64)
qed

lemma average_consistentI:
  assumes "0 < bi_CallCount info" "bi_CallCount info < 2 ^ 63"
  shows "average_consistent (info\<lparr>bi_AvgDuration :=
           int64_div (bi_Duration info) (word_of_int (bi_CallCount info))\<rparr>)"
  using assms
  by (simp add: average_consistent_def int64_div_sint mult_sdiv_smod_eq smod_abs_less)

lemma example_hotspot:
  "GetHotspots example_profile 1
     = Ok [\<lparr>bi_Name = ''f'', bi_File = [], bi_Line = 0, bi_Duration = 3, bi_CallCount = 2,
            bi_ThreadID = 1, bi_ThreadName = ''main'', bi_AvgDuration = 1\<rparr>]"
  by (simp add: GetHotspots_def example_profile_def NewProfileData_def bucket_key_def
        resolve_name_def new_BlockInfo_def Duration_def int64_div_def signed_divide_int_def
        sort_Slice_def slice_to_def Let_def)

text \<open>
  C6, as stated, fails: the bucket of \<open>f\<close> in the example model has the total 3 over
  2 calls and the average 1, and 2 times 1 is not 3.
\<close>

theorem GetHotspots_average_counterexample:
  "GetHotspots example_profile 1
     = Ok [\<lparr>bi_Name = ''f'', bi_File = [], bi_Line = 0, bi_Duration = 3, bi_CallCount = 2,
            bi_ThreadID = 1, bi_ThreadName = ''main'', bi_AvgDuration = 1\<rparr>]
   \<and> (2 :: int) * sint (1 :: 64 word) \<noteq> sint (3 :: 64 word)"
  using example_hotspot by simp

text \<open>
  C6, amended. For every model with fewer than \<open>2 ^ 63\<close> events and every limit
  \<open>N \<ge> 0\<close>, the hotspots query returns buckets whose total durations are sorted
  non-increasing, and every returned bucket has a positive call count and an average
  that is its total divided by its call count, truncated towards zero: count times
  average plus the remainder of the division is the total, and the remainder is
  smaller in magnitude than the count.
\<close>

theorem GetHotspots_sorted_average:
  assumes "0 \<le> limit" and "GetBlocksCount p < 2 ^ 63"
  shows "\<exists>hs. GetHotspots p limit = Ok hs
           \<and> sorted_wrt (\<lambda>x y. sint (bi_Duration y) \<le> sint (bi_Duration x)) hs
           \<and> (\<forall>h \<in> set hs. average_consistent h)"
proof -
  define blockMap where "blockMap = foldl (\<lambda>m (threadID, thread).
      aggregateBlocks p (Blocks thread) threadID (ThreadName thread) m) [] (Threads p)"
  define hotspots where "hotspots = map (\<lambda>(key, info).
      if bi_CallCount info > 0
      then info\<lparr>bi_AvgDuration :=
             int64_div (bi_Duration info) (word_of_int (bi_CallCount info))\<rparr>
      else info) blockMap"
  define srt where
    "srt = sort_Slice (\<lambda>x y. sint (bi_Duration y) < sint (bi_Duration x)) hotspots"
  define lim where "lim = (if limit > int (length srt) then int (length srt) else limit)"
  from fold_threads_counts [of "[]" p "Threads p"]
  have cm: "counted blockMap" and total: "calls blockMap = GetBlocksCount p"
    by (simp_all add: blockMap_def GetBlocksCount_def)
  have ok: "average_consistent h" if "h \<in> set hotspots" for h
  proof -
    from that obtain key info where mem: "(key, info) \<in> set blockMap"
      and h: "h = (if bi_CallCount info > 0
                   then info\<lparr>bi_AvgDuration :=
                          int64_div (bi_Duration info) (word_of_int (bi_CallCount info))\<rparr>
                   else info)"
      by (auto simp add: hotspots_def)
    from cm mem have pos: "0 < bi_CallCount info"
      by (auto simp add: counted_def)
    from counted_le_calls [OF cm mem] total assms(2) have "bi_CallCount info < 2 ^ 63"
      by simp
    with pos h show ?thesis
      by (simp add: average_consistentI)
  qed
  have sorted: "sorted_wrt (\<lambda>x y. sint (bi_Duration y) \<le> sint (bi_Duration x)) srt"
    unfolding srt_def by (rule sort_Slice_props(1) [of "\<lambda>x. sint (bi_Duration x)"])
  have mem: "set srt = set hotspots"
    unfolding srt_def by (rule sort_Slice_props(3) [of "\<lambda>x. sint (bi_Duration x)"])
  have lim: "0 \<le> lim" "lim \<le> int (length srt)"
    using assms(1) by (auto simp add: lim_def)
  have "GetHotspots p limit = slice_to srt lim"
    unfolding GetHotspots_def Let_def srt_def hotspots_def blockMap_def lim_def ..
  also have "\<dots> = Ok (take (nat lim) srt)"
    using lim by (simp add: slice_to_def)
  finally have "GetHotspots p limit = Ok (take (nat lim) srt)" .
  moreover have "sorted_wrt (\<lambda>x y. sint (bi_Duration y) \<le> sint (bi_Duration x))
                   (take (nat lim) srt)"
    using sorted by (rule sorted_wrt_take)
  moreover have "\<forall>h \<in> set (take (nat lim) srt). average_consistent h"
    using ok mem by (auto dest: in_set_takeD)
  ultimately show ?thesis by blast
qed

theorem GetHotspots_sorted_average_witness:
  "(0 :: int) \<le> 1 \<and> GetBlocksCount example_profile < 2 ^ 63
   \<and> GetHotspots example_profile 1
     = Ok [\<lparr>bi_Name = ''f'', bi_File = [], bi_Line = 0, bi_Duration = 3, bi_CallCount = 2,
            bi_ThreadID = 1, bi_ThreadName = ''main'', bi_AvgDuration = 1\<rparr>]
   \<and> average_consistent \<lparr>bi_Name = ''f'', bi_File = [], bi_Line = 0, bi_Duration = 3,
        bi_CallCount = 2, bi_ThreadID = 1, bi_ThreadName = ''main'', bi_AvgDuration = 1\<rparr>"
proof -
  have h: "(0 :: int) \<le> 1" "GetBlocksCount example_profile < 2 ^ 63"
    by (simp_all add: example_count)
  from GetHotspots_sorted_average [OF h] example_hotspot h show ?thesis
    by auto
qed

section \<open>float64 rounding\<close>

lemma round_half_even_of_int [simp]: "round_half_even (of_int k) = k"
  by (simp add: round_half_even_def)

lemma round_half_even_ge: "of_int k \<le> m \<Longrightarrow> k \<le> round_half_even m"
proof -
  assume "of_int k \<le> m"
  then have "k \<le> \<lfloor>m\<rfloor>" by (simp add: le_floor_iff)
  then show ?thesis by (auto simp add: round_half_even_def Let_def)
qed

lemma round_half_even_le: "m \<le> of_int k \<Longrightarrow> round_half_even m \<le> k"
proof -
  assume le: "m \<le> of_int k"
  then have f: "\<lfloor>m\<rfloor> \<le> k" by (simp add: floor_le_iff)
  show ?thesis
  proof (cases "\<lfloor>m\<rfloor> = k")
    case True
    with le have "m - of_int \<lfloor>m\<rfloor> \<le> 0" by simp
    then show ?thesis using True by (simp add: round_half_even_def Let_def)
  next
    case False
    with f have "\<lfloor>m\<rfloor> + 1 \<le> k" by simp
    then show ?thesis by (auto simp add: round_half_even_def Let_def)
  qed
qed

lemma round_half_even_gt_half: "of_int k + 1 / 2 < m \<Longrightarrow> k + 1 \<le> round_half_even m"
proof -
  assume lt: "of_int k + 1 / 2 < m"
  then have f: "k \<le> \<lfloor>m\<rfloor>" by (simp add: le_floor_iff)
  show ?thesis
  proof (cases "\<lfloor>m\<rfloor> = k")
    case True
    with lt have "1 / 2 < m - of_int \<lfloor>m\<rfloor>" by simp
    then show ?thesis using True by (simp add: round_half_even_def Let_def)
  next
    case False
    with f have "k + 1 \<le> \<lfloor>m\<rfloor>" by simp
    then show ?thesis by (auto simp add: round_half_even_def Let_def)
  qed
qed

lemma bitlen_rat_bounds:
  assumes "0 < n"
  shows "(2 :: rat) powi (bitlen n - 1) \<le> of_int n" "(of_int n :: rat) < 2 powi bitlen n"
proof -
  from bitlen_bounds [OF assms]
  have lo: "2 ^ nat (bitlen n - 1) \<le> n" and hi: "n < 2 ^ nat (bitlen n)" by simp_all
  have b: "1 \<le> bitlen n"
    using assms bitlen_eq_zero_iff [of n] bitlen_nonneg [of n] by linarith
  from lo have "(of_int (2 ^ nat (bitlen n - 1)) :: rat) \<le> of_int n"
    by (simp only: of_int_le_iff)
  with b show "(2 :: rat) powi (bitlen n - 1) \<le> of_int n"
    by (simp add: power_int_nonneg_exp)
  from hi have "(of_int n :: rat) < of_int (2 ^ nat (bitlen n))"
    by (simp only: of_int_less_iff)
  with b show "(of_int n :: rat) < 2 powi bitlen n"
    by (simp add: power_int_nonneg_exp)
qed

lemma f64_exponent_bounds:
  assumes "0 < x"
  shows "2 powi f64_exponent x \<le> x" "x < 2 powi (f64_exponent x + 1)"
proof -
  obtain n d where q: "quotient_of x = (n, d)" by (cases "quotient_of x")
  then have d: "0 < d" and x: "x = of_int n / of_int d"
    by (auto simp add: quotient_of_denom_pos quotient_of_div)
  from assms x d have n: "0 < n"
    by (simp add: zero_less_divide_iff)
  define e0 where "e0 = bitlen n - bitlen d"
  note bn = bitlen_rat_bounds [OF n] and bd = bitlen_rat_bounds [OF d]
  have pos: "(0 :: rat) < 2 powi k" for k by (simp add: zero_less_power_int)
  have dpos: "(0 :: rat) < of_int d" using d by simp
  have "x < 2 powi bitlen n / 2 powi (bitlen d - 1)"
    unfolding x using bn(2) bd(1) dpos pos [of "bitlen d - 1"] n
    by (intro frac_less) simp_all
  also have "\<dots> = 2 powi (e0 + 1)"
    by (simp add: e0_def power_int_diff [symmetric] algebra_simps)
  finally have hi: "x < 2 powi (e0 + 1)" .
  have "(2 :: rat) powi (e0 - 1) = 2 powi (bitlen n - 1) / 2 powi bitlen d"
    by (simp add: e0_def power_int_diff [symmetric] algebra_simps)
  also have "\<dots> < x"
    unfolding x using bn(1) bd(2) dpos pos [of "bitlen n - 1"]
    by (intro frac_less2) simp_all
  finally have lo: "2 powi (e0 - 1) < x" .
  have e: "f64_exponent x = (if 2 powi e0 \<le> x then e0 else e0 - 1)"
    by (simp add: f64_exponent_def q e0_def)
  show "2 powi f64_exponent x \<le> x"
    using lo by (simp add: e less_imp_le)
  show "x < 2 powi (f64_exponent x + 1)"
    using hi by (auto simp add: e not_le)
qed

lemma pow2_less_imp_less: "(2 :: rat) powi m < 2 powi n \<Longrightarrow> m < n"
  using power_int_increasing [of n m "2 :: rat"] by (cases "m < n") simp_all

lemma f64_exponent_eq:
  assumes "2 powi k \<le> x" "x < 2 powi (k + 1)"
  shows "f64_exponent x = k"
proof -
  have "(0 :: rat) < 2 powi k" by (simp add: zero_less_power_int)
  from this assms(1) have pos: "0 < x" by (rule less_le_trans)
  note b = f64_exponent_bounds [OF pos]
  from b(1) assms(2) have "(2 :: rat) powi f64_exponent x < 2 powi (k + 1)" by simp
  then have 1: "f64_exponent x < k + 1"
    by (rule pow2_less_imp_less)
  from assms(1) b(2) have "(2 :: rat) powi k < 2 powi (f64_exponent x + 1)" by simp
  then have 2: "k < f64_exponent x + 1"
    by (rule pow2_less_imp_less)
  from 1 2 show ?thesis by simp
qed


lemma f64_round_binade:
  assumes "2 powi k \<le> x" "x < 2 powi (k + 1)"
  shows "f64_round x = of_int (round_half_even (x / 2 powi (k - 52))) * 2 powi (k - 52)"
proof -
  have "(0 :: rat) < 2 powi k" by (simp add: zero_less_power_int)
  from this assms(1) have pos: "0 < x" by (rule less_le_trans)
  then have "\<bar>x\<bar> = x" "sgn x = 1" "x \<noteq> 0" by simp_all
  then show ?thesis
    by (simp add: f64_round_def f64_exponent_eq [OF assms] Let_def)
qed

lemma f64_round_binade_bounds:
  assumes "2 powi k \<le> x" "x < 2 powi (k + 1)"
  shows "2 powi k \<le> f64_round x" "f64_round x \<le> 2 powi (k + 1)"
proof -
  define u :: rat where "u = 2 powi (k - 52)"
  have u: "0 < u" by (simp add: u_def zero_less_power_int)
  have "(2 :: rat) powi k = 2 powi (52 + (k - 52))" by simp
  also have "\<dots> = 2 powi 52 * 2 powi (k - 52)" by (rule power_int_add) simp
  finally have lo_eq: "2 powi k = 2 ^ 52 * u" by (simp add: u_def)
  have "k + 1 = 53 + (k - 52)" by simp
  then have "(2 :: rat) powi (k + 1) = 2 powi (53 + (k - 52))" by (rule arg_cong)
  also have "\<dots> = 2 powi 53 * 2 powi (k - 52)" by (rule power_int_add) simp
  finally have hi_eq: "2 powi (k + 1) = 2 ^ 53 * u" by (simp add: u_def)
  define r where "r = round_half_even (x / u)"
  have fx: "f64_round x = of_int r * u"
    by (simp add: f64_round_binade [OF assms] r_def u_def)
  from assms(1) u have "of_int (2 ^ 52) \<le> x / u"
    by (simp add: lo_eq pos_le_divide_eq)
  then have "2 ^ 52 \<le> r"
    unfolding r_def by (rule round_half_even_ge)
  then have "(of_int (2 ^ 52) :: rat) \<le> of_int r" by (simp only: of_int_le_iff)
  with u show "2 powi k \<le> f64_round x"
    by (simp add: fx lo_eq)
  from assms(2) u have "x / u \<le> of_int (2 ^ 53)"
    by (simp add: hi_eq pos_divide_le_eq less_imp_le)
  then have "r \<le> 2 ^ 53"
    unfolding r_def by (rule round_half_even_le)
  then have "(of_int r :: rat) \<le> of_int (2 ^ 53)" by (simp only: of_int_le_iff)
  with u show "f64_round x \<le> 2 powi (k + 1)"
    by (simp add: fx hi_eq)
qed

lemma f64_round_int_exact:
  assumes "\<bar>k\<bar> < 2 ^ 53"
  shows "f64_round (of_int k) = of_int k"
proof (cases "k = 0")
  case True
  then show ?thesis by (simp add: f64_round_def)
next
  case False
  define x :: rat where "x = of_int \<bar>k\<bar>"
  from False have pos: "0 < x" by (simp add: x_def)
  define e where "e = f64_exponent x"
  note b = f64_exponent_bounds [OF pos, folded e_def]
  from assms have "(of_int \<bar>k\<bar> :: rat) < of_int (2 ^ 53)"
    by (simp only: of_int_less_iff)
  then have "x < 2 powi 53"
    by (simp add: x_def)
  with b(1) have "(2 :: rat) powi e < 2 powi 53" by simp
  then have e: "e < 53" by (rule pow2_less_imp_less)
  define j where "j = nat (52 - e)"
  from e have u: "(2 :: rat) powi (e - 52) = 1 / 2 ^ j"
    by (simp add: j_def power_int_def inverse_eq_divide power_one_over)
  have m: "x / 2 powi (e - 52) = of_int (\<bar>k\<bar> * 2 ^ j)"
    by (simp add: u x_def)
  have ax: "\<bar>(of_int k :: rat)\<bar> = x" by (simp add: x_def)
  have "f64_round (of_int k) = sgn (of_int k) * of_int (\<bar>k\<bar> * 2 ^ j) * (1 / 2 ^ j)"
    using False by (simp add: f64_round_def ax e_def [symmetric] m del: of_int_mult) (simp add: u)
  also have "\<dots> = sgn (of_int k) * \<bar>of_int k\<bar>"
    by simp
  also have "\<dots> = of_int k"
    by (simp add: sgn_if)
  finally show ?thesis .
qed


lemma f64_round_above_two:
  assumes "2 + 1 / 2 ^ 52 < x"
  shows "2 < f64_round x"
proof (cases "x < 4")
  case True
  from assms have "2 \<le> x" by simp
  with True have b: "2 powi 1 \<le> x" "x < 2 powi (1 + 1)" by simp_all
  have u: "(2 :: rat) powi (1 - 52) = 1 / 2 ^ 51"
    by (simp add: power_int_def inverse_eq_divide power_one_over)
  from assms have "(2 + 1 / 2 ^ 52) * 2 ^ 51 < x * 2 ^ 51"
    by (simp only: mult_less_cancel_right_pos zero_less_power zero_less_numeral)
  then have "of_int (2 ^ 52) + 1 / 2 < x / 2 powi (1 - 52)"
    by (simp add: u)
  then have "2 ^ 52 + 1 \<le> round_half_even (x / 2 powi (1 - 52))"
    by (rule round_half_even_gt_half)
  then have "(of_int (2 ^ 52 + 1) :: rat) \<le> of_int (round_half_even (x / 2 powi (1 - 52)))"
    by (simp only: of_int_le_iff)
  then have "(2 ^ 52 + 1) / 2 ^ 51 \<le> f64_round x"
    by (simp add: f64_round_binade [OF b] u divide_right_mono)
  then show ?thesis by simp
next
  case False
  have "(0 :: rat) < x" using False by simp
  note b = f64_exponent_bounds [OF this]
  from False b(2) have "(2 :: rat) powi 2 < 2 powi (f64_exponent x + 1)" by simp
  then have k: "2 \<le> f64_exponent x"
    using pow2_less_imp_less by fastforce
  have "(2 :: rat) powi 2 \<le> 2 powi f64_exponent x"
    using k by (intro power_int_increasing) simp_all
  also have "\<dots> \<le> f64_round x"
    using b by (rule f64_round_binade_bounds)
  finally show ?thesis by simp
qed

lemma f64_round_at_most_two:
  assumes "1 \<le> x" "x \<le> 2"
  shows "f64_round x \<le> 2"
proof (cases "x = 2")
  case True
  then show ?thesis
    using f64_round_int_exact [of 2] by simp
next
  case False
  with assms have "2 powi 0 \<le> x" "x < 2 powi (0 + 1)" by simp_all
  from f64_round_binade_bounds(2) [OF this] show ?thesis by simp
qed

lemma f64_ratio_gt_two_iff:
  fixes a b :: int
  assumes "0 < b" "b \<le> a" "a < 2 ^ 53"
  shows "2 < f64_round (f64_round (of_int a) / f64_round (of_int b)) \<longleftrightarrow> 2 * b < a"
proof -
  from assms have ex: "f64_round (of_int a) = of_int a" "f64_round (of_int b) = of_int b"
    by (simp_all add: f64_round_int_exact)
  have bpos: "(0 :: rat) < of_int b" using assms by simp
  show ?thesis
  proof (cases "2 * b < a")
    case True
    then have "2 * b + 1 \<le> a" by simp
    then have "(of_int (2 * b + 1) :: rat) \<le> of_int a" by (simp only: of_int_le_iff)
    with bpos have 1: "(2 :: rat) + 1 / of_int b \<le> of_int a / of_int b"
      by (simp add: pos_le_divide_eq algebra_simps)
    from True assms have "b < 2 ^ 52" by simp
    then have "(of_int b :: rat) < of_int (2 ^ 52)" by (simp only: of_int_less_iff)
    with bpos have "(1 :: rat) / 2 ^ 52 < 1 / of_int b"
      by (simp add: frac_less2)
    then have "(2 :: rat) + 1 / 2 ^ 52 < 2 + 1 / of_int b"
      by (rule add_strict_left_mono)
    from this 1 have "(2 :: rat) + 1 / 2 ^ 52 < of_int a / of_int b"
      by (rule less_le_trans)
    from f64_round_above_two [OF this] True show ?thesis by (simp add: ex)
  next
    case False
    then have "a \<le> 2 * b" by simp
    then have "(of_int a :: rat) \<le> of_int (2 * b)" by (simp only: of_int_le_iff)
    with bpos have 2: "(of_int a :: rat) / of_int b \<le> 2"
      by (simp add: pos_divide_le_eq)
    from assms have "(of_int b :: rat) \<le> of_int a" by (simp only: of_int_le_iff)
    with bpos have 1: "(1 :: rat) \<le> of_int a / of_int b"
      by (simp add: pos_le_divide_eq)
    from f64_round_at_most_two [OF 1 2] False show ?thesis by (simp add: ex)
  qed
qed


subsection \<open>Monotonicity\<close>

lemma round_half_even_bounds: "\<lfloor>m\<rfloor> \<le> round_half_even m" "round_half_even m \<le> \<lfloor>m\<rfloor> + 1"
  by (auto simp add: round_half_even_def Let_def)

lemma round_half_even_mono:
  assumes "m \<le> m'"
  shows "round_half_even m \<le> round_half_even m'"
proof (cases "\<lfloor>m\<rfloor> = \<lfloor>m'\<rfloor>")
  case False
  from assms have "\<lfloor>m\<rfloor> \<le> \<lfloor>m'\<rfloor>" by (rule floor_mono)
  with False have "\<lfloor>m\<rfloor> + 1 \<le> \<lfloor>m'\<rfloor>" by simp
  with round_half_even_bounds(2) [of m] round_half_even_bounds(1) [of m'] show ?thesis
    by linarith
next
  case True
  with assms have "m - of_int \<lfloor>m\<rfloor> \<le> m' - of_int \<lfloor>m'\<rfloor>" by simp
  with True show ?thesis
    by (auto simp add: round_half_even_def Let_def)
qed

lemma f64_exponent_mono:
  assumes "0 < x" "x \<le> y"
  shows "f64_exponent x \<le> f64_exponent y"
proof -
  from assms have y: "0 < y" by simp
  note bx = f64_exponent_bounds [OF assms(1)] and b_y = f64_exponent_bounds [OF y]
  from bx(1) assms(2) b_y(2) have "(2 :: rat) powi f64_exponent x < 2 powi (f64_exponent y + 1)"
    by simp
  from pow2_less_imp_less [OF this] show ?thesis by simp
qed

lemma f64_round_mono_pos:
  assumes "0 < x" "x \<le> y"
  shows "f64_round x \<le> f64_round y"
proof -
  from assms have y: "0 < y" by simp
  note bx = f64_exponent_bounds [OF assms(1)] and b_y = f64_exponent_bounds [OF y]
  show ?thesis
  proof (cases "f64_exponent x = f64_exponent y")
    case True
    define u :: rat where "u = 2 powi (f64_exponent y - 52)"
    have u: "0 < u" by (simp add: u_def zero_less_power_int)
    with assms(2) have "x / u \<le> y / u" by (simp add: divide_right_mono)
    then have "round_half_even (x / u) \<le> round_half_even (y / u)"
      by (rule round_half_even_mono)
    then have "(of_int (round_half_even (x / u)) :: rat) \<le> of_int (round_half_even (y / u))"
      by (simp only: of_int_le_iff)
    with u have "of_int (round_half_even (x / u)) * u \<le> of_int (round_half_even (y / u)) * u"
      by (simp add: mult_right_mono)
    then show ?thesis
      using bx b_y by (simp add: f64_round_binade True u_def)
  next
    case False
    with f64_exponent_mono [OF assms] have "f64_exponent x + 1 \<le> f64_exponent y" by simp
    then have "(2 :: rat) powi (f64_exponent x + 1) \<le> 2 powi f64_exponent y"
      by (intro power_int_increasing) simp_all
    with f64_round_binade_bounds(2) [OF bx] f64_round_binade_bounds(1) [OF b_y]
    show ?thesis by linarith
  qed
qed

lemma pow2_succ: "(2 :: rat) powi (j + 1) = 2 * 2 powi j"
  by (simp add: power_int_add)

lemma f64_round_double:
  assumes "0 < x"
  shows "f64_round (2 * x) = 2 * f64_round x"
proof -
  define k where "k = f64_exponent x"
  define k1 where "k1 = k + 1"
  note b = f64_exponent_bounds [OF assms, folded k_def]
  from b(1) have "2 * 2 powi k \<le> 2 * x" by simp
  then have lo: "2 powi k1 \<le> 2 * x" by (simp only: k1_def pow2_succ)
  from b(2) have "2 * x < 2 * 2 powi (k + 1)" by simp
  then have hi: "2 * x < 2 powi (k1 + 1)" by (simp only: k1_def pow2_succ [of "k + 1"])
  have "k1 - 52 = (k - 52) + 1" by (simp add: k1_def)
  then have "(2 :: rat) powi (k1 - 52) = 2 powi ((k - 52) + 1)" by (rule arg_cong)
  then have u: "(2 :: rat) powi (k1 - 52) = 2 * 2 powi (k - 52)" by (simp only: pow2_succ)
  show ?thesis
    by (simp add: f64_round_binade [OF lo hi] f64_round_binade [OF b] u)
qed

lemma f64_round_pos:
  assumes "0 < x"
  shows "0 < f64_round x"
proof -
  note b = f64_exponent_bounds [OF assms]
  have "(0 :: rat) < 2 powi f64_exponent x" by (simp add: zero_less_power_int)
  also have "\<dots> \<le> f64_round x" using b by (rule f64_round_binade_bounds)
  finally show ?thesis .
qed

lemma f64_ratio_le_two:
  fixes a b :: int
  assumes "0 < b" "b \<le> a" "a \<le> 2 * b"
  shows "\<not> 2 < f64_round (f64_round (of_int a) / f64_round (of_int b))"
proof -
  define A where "A = f64_round (of_int a)"
  define B where "B = f64_round (of_int b)"
  have bpos: "(0 :: rat) < of_int b" using assms by simp
  then have B: "0 < B" unfolding B_def by (rule f64_round_pos)
  from assms have "(of_int b :: rat) \<le> of_int a" by (simp only: of_int_le_iff)
  with bpos have BA: "B \<le> A" unfolding A_def B_def by (rule f64_round_mono_pos)
  have apos: "(0 :: rat) < of_int a" using assms by simp
  from assms have "(of_int a :: rat) \<le> of_int (2 * b)" by (simp only: of_int_le_iff)
  then have "(of_int a :: rat) \<le> 2 * of_int b" by simp
  with apos have "A \<le> f64_round (2 * of_int b)" unfolding A_def by (rule f64_round_mono_pos)
  also have "\<dots> = 2 * B" unfolding B_def using bpos by (rule f64_round_double)
  finally have A2: "A \<le> 2 * B" .
  from B BA have 1: "1 \<le> A / B" by (simp add: pos_le_divide_eq)
  from B A2 have 2: "A / B \<le> 2" by (simp add: pos_divide_le_eq)
  from f64_round_at_most_two [OF 1 2] show ?thesis
    by (simp add: A_def B_def)
qed


section \<open>Thread imbalance\<close>

lemma sorted_desc_first_last:
  fixes ks :: "int list"
  assumes "sorted_wrt (\<lambda>a b. b \<le> a) ks" "ks \<noteq> []"
  shows "ks ! 0 = Max (set ks)" "ks ! (length ks - 1) = Min (set ks)"
proof -
  from assms(2) have n: "0 < length ks" by simp
  have le: "ks ! j \<le> ks ! i" if "i \<le> j" "j < length ks" for i j
    using that assms(1) by (cases "i = j") (auto simp add: sorted_wrt_iff_nth_less)
  show "ks ! 0 = Max (set ks)"
  proof (rule Max_eqI [symmetric])
    show "finite (set ks)" by simp
    show "ks ! 0 \<in> set ks" using n by simp
    fix y assume "y \<in> set ks"
    then obtain j where "j < length ks" "y = ks ! j" by (auto simp add: in_set_conv_nth)
    with le [of 0 j] show "y \<le> ks ! 0" by simp
  qed
  show "ks ! (length ks - 1) = Min (set ks)"
  proof (rule Min_eqI [symmetric])
    show "finite (set ks)" by simp
    show "ks ! (length ks - 1) \<in> set ks" using n by simp
    fix y assume "y \<in> set ks"
    then obtain j where "j < length ks" "y = ks ! j" by (auto simp add: in_set_conv_nth)
    with le [of j "length ks - 1"] n show "ks ! (length ks - 1) \<le> y" by simp
  qed
qed

lemma stats_totals:
  "sorted_wrt (\<lambda>a b. b \<le> a) (map (\<lambda>s. sint (ts_TotalDuration s)) (GetThreadStatistics p))"
  "length (GetThreadStatistics p) = length (Threads p)"
  "set (map (\<lambda>s. sint (ts_TotalDuration s)) (GetThreadStatistics p)) = set (thread_totals p)"
proof -
  define stats where "stats = map (\<lambda>(threadID, thread).
            let threadDuration = calculateThreadDuration (Blocks thread);
                blockCount = countBlocks (Blocks thread);
                avgBlockDuration =
                  (if blockCount > 0 then int64_div threadDuration (word_of_int blockCount)
                   else 0);
                percentOfTotal =
                  (if sint (GetTotalDuration p) > 0
                   then f64_mul (f64_div (float64 threadDuration) (float64 (GetTotalDuration p))) 100
                   else 0)
            in \<lparr>ts_ThreadID = threadID, ts_ThreadName = ThreadName thread,
                 ts_TotalDuration = threadDuration, ts_BlockCount = blockCount,
                 ts_ContextSwitches = int (length (ContextSwitches thread)),
                 ts_AvgBlockDuration = avgBlockDuration,
                 ts_PercentOfTotal = percentOfTotal\<rparr>) (Threads p)"
  have g: "GetThreadStatistics p
      = sort_Slice (\<lambda>x y. sint (ts_TotalDuration y) < sint (ts_TotalDuration x)) stats"
    by (simp add: GetThreadStatistics_def stats_def Let_def)
  note pr = sort_Slice_props [of "\<lambda>s. sint (ts_TotalDuration s)" stats]
  show "sorted_wrt (\<lambda>a b. b \<le> a) (map (\<lambda>s. sint (ts_TotalDuration s)) (GetThreadStatistics p))"
    using pr(1) by (simp add: g sorted_wrt_map)
  show "length (GetThreadStatistics p) = length (Threads p)"
    using pr(2) by (simp add: g stats_def)
  have "map (\<lambda>s. sint (ts_TotalDuration s)) stats = thread_totals p"
    by (simp add: stats_def thread_totals_def Let_def split_def)
  then have "(\<lambda>s. sint (ts_TotalDuration s)) ` set stats = set (thread_totals p)"
    by (metis set_map)
  then show "set (map (\<lambda>s. sint (ts_TotalDuration s)) (GetThreadStatistics p)) = set (thread_totals p)"
    using pr(3) by (simp add: g)
qed

lemma thread_totals_two_threads: "thread_totals (two_threads d1 d2) = [sint d1, sint d2]"
  by (simp add: thread_totals_def two_threads_def NewProfileData_def calculateThreadDuration_def
        Duration_def)

text \<open>
  The conversion of \<open>2 ^ 54 + 1\<close> to \<^verbatim>\<open>float64\<close> rounds to \<open>2 ^ 54\<close>, and the
  quotient by \<open>2 ^ 53\<close> is then exactly 2.
\<close>

lemma float64_rounds:
  "float64 18014398509481985 = 18014398509481984"
  "float64 9007199254740992 = 9007199254740992"
  "f64_div 18014398509481984 9007199254740992 = 2"
  by code_simp+

text \<open>
  C7, as stated, fails: two threads with the totals \<open>2 ^ 53\<close> and \<open>2 ^ 54 + 1\<close>
  nanoseconds have a nonzero minimum and a ratio above 2, and the rule emits no issue,
  because the ratio it compares has been rounded to 2.
\<close>

theorem detectThreadImbalance_rounding_counterexample:
  "imbalanced (two_threads 9007199254740992 18014398509481985)
   \<and> detectThreadImbalance (two_threads 9007199254740992 18014398509481985) = []"
  by code_simp

text \<open>
  C7, amended. The thread-imbalance rule emits no issue unless the capture has at least
  two threads, the minimum per-thread total duration is nonzero and the ratio of the
  maximum to the minimum total exceeds 2 (so none for a ratio of 1.5, or for a zero
  minimum). When these three conditions hold and every per-thread total is below
  \<open>2 ^ 53\<close> nanoseconds in magnitude, it emits exactly one issue, of severity medium and
  type Thread Imbalance.
\<close>

theorem detectThreadImbalance_rule:
  "(\<not> imbalanced p \<longrightarrow> detectThreadImbalance p = [])
   \<and> ((\<forall>t \<in> set (thread_totals p). \<bar>t\<bar> < 2 ^ 53) \<and> imbalanced p \<longrightarrow>
        (\<exists>i. detectThreadImbalance p = [i] \<and> pi_Type i = ''Thread Imbalance''
             \<and> pi_Severity i = ''medium''))"
proof (cases "length (Threads p) < 2")
  case True
  then show ?thesis
    by (simp add: detectThreadImbalance_def imbalanced_def stats_totals(2))
next
  case False
  define stats where "stats = GetThreadStatistics p"
  define ks where "ks = map (\<lambda>s. sint (ts_TotalDuration s)) stats"
  from False have len: "2 \<le> length stats" "length ks = length stats"
    by (simp_all add: stats_def ks_def stats_totals(2))
  then have ne: "ks \<noteq> []" by auto
  have srt: "sorted_wrt (\<lambda>a b. b \<le> a) ks"
    unfolding ks_def stats_def by (rule stats_totals(1))
  have st: "set ks = set (thread_totals p)"
    unfolding ks_def stats_def by (rule stats_totals(3))
  define mx where "mx = sint (ts_TotalDuration (stats ! 0))"
  define mn where "mn = sint (ts_TotalDuration (stats ! (length stats - 1)))"
  define ratio where "ratio = f64_div (float64 (ts_TotalDuration (stats ! 0)))
                                (float64 (ts_TotalDuration (stats ! (length stats - 1))))"
  from len(1) have "0 < length stats" "length stats - 1 < length stats" by linarith+
  then have "ks ! 0 = mx" "ks ! (length ks - 1) = mn"
    by (simp_all add: ks_def mx_def mn_def)
  with sorted_desc_first_last [OF srt ne]
  have mx: "mx = Max (set (thread_totals p))" and mn: "mn = Min (set (thread_totals p))"
    by (simp_all add: st)
  have fin: "finite (set (thread_totals p))" "set (thread_totals p) \<noteq> {}"
    using ne st by auto
  have mem: "mx \<in> set (thread_totals p)" "mn \<in> set (thread_totals p)"
    unfolding mx mn using fin by (simp_all add: Max_in Min_in)
  have le: "mn \<le> mx"
    using Min_le [OF fin(1) mem(1)] by (simp add: mn)
  have r: "ratio = f64_round (f64_round (of_int mx) / f64_round (of_int mn))"
    by (simp only: ratio_def f64_div_def float64_def mx_def mn_def)
  have imb: "imbalanced p \<longleftrightarrow> (mn \<noteq> 0 \<and> 2 < (of_int mx :: rat) / of_int mn)"
    using False by (simp add: imbalanced_def mx mn)
  have exact: "2 < (of_int mx :: rat) / of_int mn \<longleftrightarrow> 2 * mn < mx" if "0 < mn"
  proof -
    have "(of_int (2 * mn) :: rat) < of_int mx \<longleftrightarrow> 2 * mn < mx"
      by (simp only: of_int_less_iff)
    with that show ?thesis
      by (simp add: pos_less_divide_eq)
  qed
  have neg: "\<not> 2 < (of_int mx :: rat) / of_int mn" if "mn < 0"
  proof -
    from that le have "2 * mn < mx" by simp
    then have "(of_int (2 * mn) :: rat) < of_int mx" by (simp only: of_int_less_iff)
    with that show ?thesis
      by (simp add: neg_less_divide_eq)
  qed
  have code: "detectThreadImbalance p =
      (if 0 < mn \<and> 2 < ratio
       then [\<lparr>pi_Type = ''Thread Imbalance'', pi_Severity = ''medium'',
               pi_Description = ThreadImbalanceText (ts_TotalDuration (stats ! 0))
                 (ts_TotalDuration (stats ! (length stats - 1))) ratio,
               pi_Location = ''across all threads'',
               pi_Duration = ts_TotalDuration (stats ! 0)
                 - ts_TotalDuration (stats ! (length stats - 1)),
               pi_ThreadID = 0, pi_ThreadName = []\<rparr>]
       else [])"
    using len(1)
    by (simp add: detectThreadImbalance_def Let_def stats_def [symmetric] mn_def ratio_def)
  have sound: "imbalanced p" if "0 < mn" "2 < ratio"
  proof -
    have "2 * mn < mx"
    proof (rule ccontr)
      assume "\<not> 2 * mn < mx"
      then have "mx \<le> 2 * mn" by simp
      from f64_ratio_le_two [OF that(1) le this] that(2) show False
        by (simp add: r)
    qed
    with that(1) show ?thesis by (simp add: imb exact)
  qed
  have complete: "0 < mn \<and> 2 < ratio"
    if small: "\<forall>t \<in> set (thread_totals p). \<bar>t\<bar> < 2 ^ 53" and i: "imbalanced p"
  proof -
    from i neg have pos: "0 < mn" by (cases "mn < 0") (auto simp add: imb)
    from small mem(1) have "mx < 2 ^ 53" by auto
    from f64_ratio_gt_two_iff [OF pos le this] i pos show ?thesis
      by (simp add: r imb exact)
  qed
  from sound complete show ?thesis
    unfolding code by auto
qed


text \<open>
  Two threads with the totals 100 ms and 300 ms give exactly one issue; with 200 ms and
  300 ms (a ratio of 1.5) they give none.
\<close>

theorem detectThreadImbalance_rule_witness:
  "thread_totals (two_threads 100000000 300000000) = [100000000, 300000000]
   \<and> imbalanced (two_threads 100000000 300000000)
   \<and> (\<exists>i. detectThreadImbalance (two_threads 100000000 300000000) = [i]
          \<and> pi_Type i = ''Thread Imbalance'' \<and> pi_Severity i = ''medium'')
   \<and> thread_totals (two_threads 200000000 300000000) = [200000000, 300000000]
   \<and> \<not> imbalanced (two_threads 200000000 300000000)
   \<and> detectThreadImbalance (two_threads 200000000 300000000) = []"
proof -
  have t1: "thread_totals (two_threads 100000000 300000000) = [100000000, 300000000]"
    and t2: "thread_totals (two_threads 200000000 300000000) = [200000000, 300000000]"
    by (simp_all add: thread_totals_two_threads)
  have h1: "\<forall>t \<in> set (thread_totals (two_threads 100000000 300000000)). \<bar>t\<bar> < 2 ^ 53"
    by (simp add: t1)
  have i1: "imbalanced (two_threads 100000000 300000000)"
    by (simp add: imbalanced_def t1) (simp add: two_threads_def)
  have i2: "\<not> imbalanced (two_threads 200000000 300000000)"
    by (simp add: imbalanced_def t2)
  from detectThreadImbalance_rule [of "two_threads 100000000 300000000"]
    detectThreadImbalance_rule [of "two_threads 200000000 300000000"] t1 t2 h1 i1 i2
  show ?thesis by blast
qed


end
